theory Spec2Isabelle
  imports Main "HOL-Library.Word"
begin

chapter \<open>The lotus provider: verified-registry v10 adapter, window-post builder, task selection\<close>

section \<open>chain/actors/builtin/verifreg/v10.go\<close>

text \<open>
  Addresses and content identifiers are byte strings, \<open>abi.StoragePower\<close> is a big integer,
  allocation and claim ids are \<open>uint64\<close>.
\<close>

type_synonym address = string
type_synonym cid = string
type_synonym StoragePower = int
type_synonym AllocationId = "64 word"
type_synonym ClaimId = "64 word"

text \<open>
  A Go \<open>error\<close> value returned by this file is either built here with \<open>xerrors.Errorf\<close>
  (the message is kept), or it is a value that another package or the caller's callback
  made and that this file hands on unchanged; \<open>'e\<close> is the type of those.
  \<open>nil\<close> is \<open>None\<close> of \<open>'e error option\<close>.
\<close>

datatype 'e error = Errorf string | Foreign 'e

definition unsupported :: "'e error" where
  "unsupported = Errorf ''unsupported in actors v10''"

text \<open>
  \<open>verifreg10.State\<close> of go-state-types: the fields this file reads. The record is
  extensible, the remaining fields of the library's struct are its extension \<open>'z\<close>.
\<close>

record verifreg10_State =
  State_RootKey :: address
  State_Verifiers :: cid
  State_RemoveDataCapProposalIDs :: cid

text \<open>\<open>type state10 struct { verifreg10.State; store adt.Store }\<close>\<close>

record ('z, 's) state10 =
  State :: "'z verifreg10_State_scheme"
  store :: 's

text \<open>
  An \<open>adt.Map\<close> of data caps, as the entries its \<open>ForEach\<close> visits, in that order.
\<close>

type_synonym capMap = "(address \<times> StoragePower) list"

text \<open>
  The calls that leave the repository: \<open>store.Get\<close> of the \<open>adt.Store\<close>, \<open>adt10.AsMap\<close>,
  and the methods \<open>FindAllocation\<close> and \<open>FindClaim\<close> of the embedded library state. They
  are parameters of the model. A Go result \<open>(*T, bool, error)\<close> is a triple.
\<close>

record ('z, 's, 'e, 'al, 'cl) external =
  store_Get :: "'s \<Rightarrow> cid \<Rightarrow> 'e + 'z verifreg10_State_scheme"
  adt10_AsMap :: "'s \<Rightarrow> cid \<Rightarrow> nat \<Rightarrow> 'e + capMap"
  FindAllocation :: "'z verifreg10_State_scheme \<Rightarrow> 's \<Rightarrow> address \<Rightarrow> AllocationId
                       \<Rightarrow> 'al option \<times> bool \<times> 'e option"
  FindClaim :: "'z verifreg10_State_scheme \<Rightarrow> 's \<Rightarrow> address \<Rightarrow> ClaimId
                       \<Rightarrow> 'cl option \<times> bool \<times> 'e option"

definition DefaultHamtBitwidth :: nat where
  "DefaultHamtBitwidth = 5"

text \<open>
  \<open>load10\<close>: \<open>store.Get\<close> decodes the object at \<open>root\<close> into the embedded state; its error
  is returned as it is.
\<close>

definition load10 ::
  "('z, 's, 'e, 'al, 'cl) external \<Rightarrow> 's \<Rightarrow> cid \<Rightarrow> 'e error + ('z, 's) state10" where
  "load10 X st root =
     (case store_Get X st root of
        Inl err \<Rightarrow> Inl (Foreign err)
      | Inr out \<Rightarrow> Inr \<lparr>State = out, store = st\<rparr>)"

definition RootKey :: "('z, 's) state10 \<Rightarrow> address \<times> 'e error option" where
  "RootKey s = (State_RootKey (State s), None)"

definition VerifiedClientDataCap ::
  "('z, 's) state10 \<Rightarrow> address \<Rightarrow> bool \<times> StoragePower \<times> 'e error option" where
  "VerifiedClientDataCap s addr = (False, 0, Some unsupported)"

text \<open>
  A callback \<open>func(addr, dcap) error\<close> is a closure of the caller: it works on the caller's
  state \<open>'a\<close> and returns the caller's error or \<open>nil\<close>.
\<close>

type_synonym ('e, 'a) capCallback = "address \<Rightarrow> StoragePower \<Rightarrow> 'a \<Rightarrow> 'e option \<times> 'a"

definition ForEachClient ::
  "('z, 's) state10 \<Rightarrow> ('e, 'a) capCallback \<Rightarrow> 'a \<Rightarrow> 'e error option \<times> 'a" where
  "ForEachClient s cb a = (Some unsupported, a)"

definition verifiedClients :: "('z, 's) state10 \<Rightarrow> 'e error + capMap" where
  "verifiedClients s = Inl unsupported"

definition verifiers ::
  "('z, 's, 'e, 'al, 'cl) external \<Rightarrow> ('z, 's) state10 \<Rightarrow> 'e error + capMap" where
  "verifiers X s =
     (case adt10_AsMap X (store s) (State_Verifiers (State s)) DefaultHamtBitwidth of
        Inl err \<Rightarrow> Inl (Foreign err)
      | Inr m \<Rightarrow> Inr m)"

text \<open>
  Modelled from the spec: \<open>forEachCap\<close> of this package (util.go, which is not among the
  source files). The spec's \<open>for_each_verifier(fn)\<close> calls \<open>fn\<close> on every entry: the map
  is loaded through the root function, a failure to load it is the result, the entries are
  visited in the map's order and the first error of the callback ends the walk and is the
  result.
\<close>

fun forEachEntry :: "capMap \<Rightarrow> ('e, 'a) capCallback \<Rightarrow> 'a \<Rightarrow> 'e option \<times> 'a" where
  "forEachEntry [] cb a = (None, a)"
| "forEachEntry ((k, dcap) # es) cb a =
     (case cb k dcap a of
        (Some err, a') \<Rightarrow> (Some err, a')
      | (None, a') \<Rightarrow> forEachEntry es cb a')"

definition forEachCap ::
  "'e error + capMap \<Rightarrow> ('e, 'a) capCallback \<Rightarrow> 'a \<Rightarrow> 'e error option \<times> 'a" where
  "forEachCap root cb a =
     (case root of
        Inl err \<Rightarrow> (Some err, a)
      | Inr vh \<Rightarrow> (case forEachEntry vh cb a of (r, a') \<Rightarrow> (map_option Foreign r, a')))"

definition ForEachVerifier ::
  "('z, 's, 'e, 'al, 'cl) external \<Rightarrow> ('z, 's) state10 \<Rightarrow> ('e, 'a) capCallback \<Rightarrow> 'a
     \<Rightarrow> 'e error option \<times> 'a" where
  "ForEachVerifier X s cb a = forEachCap (verifiers X s) cb a"

definition GetAllocation ::
  "('z, 's, 'e, 'al, 'cl) external \<Rightarrow> ('z, 's) state10 \<Rightarrow> address \<Rightarrow> AllocationId
     \<Rightarrow> 'al option \<times> bool \<times> 'e error option" where
  "GetAllocation X s clientIdAddr allocationId =
     (case FindAllocation X (State s) (store s) clientIdAddr allocationId of
        (alloc, found, err) \<Rightarrow> (alloc, found, map_option Foreign err))"

definition GetClaim ::
  "('z, 's, 'e, 'al, 'cl) external \<Rightarrow> ('z, 's) state10 \<Rightarrow> address \<Rightarrow> ClaimId
     \<Rightarrow> 'cl option \<times> bool \<times> 'e error option" where
  "GetClaim X s providerIdAddr claimId =
     (case FindClaim X (State s) (store s) providerIdAddr claimId of
        (claim, found, err) \<Rightarrow> (claim, found, map_option Foreign err))"

section \<open>provider/builder.go\<close>

text \<open>
  The collaborators that \<open>WindowPostScheduler\<close> only passes on (the context, the full-node
  API, the verifier, the local worker, the address selector, the database, the stores) are
  opaque handles. \<open>time.Duration\<close> is a signed 64-bit count of nanoseconds, Go's \<open>int\<close> and
  the big integer \<open>types.FIL\<close> are integers.
\<close>

type_synonym handle = nat
type_synonym Duration = "64 word"

definition Second :: Duration where
  "Second = 1000000000"

text \<open>\<open>config.LotusProviderFees\<close>: the field that is read; the others are the extension.\<close>

record LotusProviderFees =
  MaxWindowPoStGasFee :: int

text \<open>
  \<open>chainsched.New(api)\<close> and \<open>lpmessage.NewSender(api, api, db)\<close> return one value and no
  error: the value is the record of what it was built from.
\<close>

record ProviderChainSched =
  pcs_api :: handle

record Sender =
  snd_api :: handle
  snd_signer :: handle
  snd_db :: handle

text \<open>
  \<open>lpwindow.NewSimpleFaultTracker(stor, idx, 32, 5*time.Second, 300*time.Second)\<close> returns
  one value and no error: the value is the record of its arguments, in the order of the
  call. The call site shows a store, an index, a count and two durations; builder.go does
  not name them.
\<close>

record SimpleFaultTracker =
  ft_storage :: handle
  ft_index :: handle
  ft_limit :: int
  ft_duration1 :: Duration
  ft_duration2 :: Duration

definition chainsched_New :: "handle \<Rightarrow> ProviderChainSched" where
  "chainsched_New api = \<lparr>pcs_api = api\<rparr>"

definition NewSimpleFaultTracker ::
  "handle \<Rightarrow> handle \<Rightarrow> int \<Rightarrow> Duration \<Rightarrow> Duration \<Rightarrow> SimpleFaultTracker" where
  "NewSimpleFaultTracker stor idx n d1 d2 =
     \<lparr>ft_storage = stor, ft_index = idx, ft_limit = n, ft_duration1 = d1, ft_duration2 = d2\<rparr>"

definition NewSender :: "handle \<Rightarrow> handle \<Rightarrow> handle \<Rightarrow> Sender" where
  "NewSender api signer db = \<lparr>snd_api = api, snd_signer = signer, snd_db = db\<rparr>"

text \<open>
  The arguments of the two task constructors, in the order of the call sites
  \<open>NewWdPostTask(db, api, ft, lw, verif, chainSched, maddr, max)\<close> and
  \<open>NewWdPostSubmitTask(chainSched, sender, db, api, fc.MaxWindowPoStGasFee, as)\<close>.
\<close>

record WdPostTaskArgs =
  wa_db :: handle
  wa_api :: handle
  wa_ft :: SimpleFaultTracker
  wa_lw :: handle
  wa_verif :: handle
  wa_chainSched :: ProviderChainSched
  wa_maddr :: "address list"
  wa_max :: int

record WdPostSubmitTaskArgs =
  sa_chainSched :: ProviderChainSched
  sa_sender :: Sender
  sa_db :: handle
  sa_api :: handle
  sa_maxFee :: int
  sa_as :: handle

text \<open>
  The two constructors can fail and their bodies are in package lpwindow: they are
  parameters, \<open>'ct\<close> and \<open>'st\<close> the tasks they build and \<open>'e\<close> their errors.
\<close>

record ('ct, 'st, 'e) lpwindow =
  NewWdPostTask :: "WdPostTaskArgs \<Rightarrow> 'e + 'ct"
  NewWdPostSubmitTask :: "WdPostSubmitTaskArgs \<Rightarrow> 'e + 'st"

text \<open>
  What a call of \<open>WindowPostScheduler\<close> does besides returning: the calls into the other
  packages and the goroutine it starts, in program order.
\<close>

datatype effect =
    Call_chainsched_New handle
  | Call_NewSimpleFaultTracker handle handle int Duration Duration
  | Call_NewSender handle handle handle
  | Call_NewWdPostTask WdPostTaskArgs
  | Call_NewWdPostSubmitTask WdPostSubmitTaskArgs
  | Go_chainSched_Run handle ProviderChainSched

text \<open>
  The Go result \<open>(*WdPostTask, *WdPostSubmitTask, error)\<close> is a triple of options, \<open>None\<close>
  for \<open>nil\<close>.
\<close>

definition WindowPostScheduler ::
  "('ct, 'st, 'e) lpwindow \<Rightarrow> handle \<Rightarrow> 'f LotusProviderFees_scheme \<Rightarrow> 'pc \<Rightarrow> handle
     \<Rightarrow> handle \<Rightarrow> handle \<Rightarrow> handle \<Rightarrow> address list \<Rightarrow> handle \<Rightarrow> handle \<Rightarrow> handle \<Rightarrow> int
     \<Rightarrow> ('ct option \<times> 'st option \<times> 'e option) \<times> effect list" where
  "WindowPostScheduler L ctx fc pc api verif lw asel maddr db stor idx max' =
     (let chainSched = chainsched_New api;
          ft = NewSimpleFaultTracker stor idx 32 (5 * Second) (300 * Second);
          sender = NewSender api api db;
          made = [Call_chainsched_New api,
                  Call_NewSimpleFaultTracker stor idx 32 (5 * Second) (300 * Second),
                  Call_NewSender api api db];
          computeArgs = \<lparr>wa_db = db, wa_api = api, wa_ft = ft, wa_lw = lw, wa_verif = verif,
                         wa_chainSched = chainSched, wa_maddr = maddr, wa_max = max'\<rparr>
      in case NewWdPostTask L computeArgs of
           Inl err \<Rightarrow> ((None, None, Some err), made @ [Call_NewWdPostTask computeArgs])
         | Inr computeTask \<Rightarrow>
             (let submitArgs = \<lparr>sa_chainSched = chainSched, sa_sender = sender, sa_db = db,
                                 sa_api = api, sa_maxFee = MaxWindowPoStGasFee fc,
                                 sa_as = asel\<rparr>
              in case NewWdPostSubmitTask L submitArgs of
                   Inl err \<Rightarrow>
                     ((None, None, Some err),
                      made @ [Call_NewWdPostTask computeArgs,
                              Call_NewWdPostSubmitTask submitArgs])
                 | Inr submitTask \<Rightarrow>
                     ((Some computeTask, Some submitTask, None),
                      made @ [Call_NewWdPostTask computeArgs,
                              Call_NewWdPostSubmitTask submitArgs,
                              Go_chainSched_Run ctx chainSched])))"

section \<open>cmd/lotus-provider/run.go: task selection\<close>

text \<open>
  The part of the configuration and of \<open>Deps\<close> that the task selection of \<open>runCmd.Action\<close>
  reads.
\<close>

record ProviderSubsystemsConfig =
  EnableWindowPost :: bool
  WindowPostMaxTasks :: int
  EnableWinningPost :: bool
  WinningPostMaxTasks :: int

record ('f, 'pc) LotusProviderConfig =
  Subsystems :: ProviderSubsystemsConfig
  Fees :: "'f LotusProviderFees_scheme"
  Proving :: 'pc

record ('f, 'pc) Deps =
  deps_cfg :: "('f, 'pc) LotusProviderConfig"
  deps_db :: handle
  deps_full :: handle
  deps_verif :: handle
  deps_lw :: handle
  deps_as :: handle
  deps_maddrs :: "address list"
  deps_stor :: handle
  deps_si :: handle
  deps_localStore :: handle
  deps_listenAddr :: string

text \<open>
  \<open>[]harmonytask.TaskInterface\<close> holds values of different dynamic types: one constructor
  for each type that run.go puts into the slice. The call of \<open>provider.WindowPostScheduler\<close>
  in run.go takes three tasks and an error from it (\<open>wdPostTask, wdPoStSubmitTask,
  derlareRecoverTask, err\<close>); the type parameters are the pointer types.
\<close>

datatype ('c, 's, 'r, 'n) TaskInterface =
    WdPostTask 'c
  | WdPostSubmitTask 's
  | DeclareRecoverTask 'r
  | WinPostTask 'n

record ('f, 'pc) WindowPostSchedulerCall =
  wps_ctx :: handle
  wps_fc :: "'f LotusProviderFees_scheme"
  wps_pc :: 'pc
  wps_api :: handle
  wps_verif :: handle
  wps_lw :: handle
  wps_as :: handle
  wps_maddr :: "address list"
  wps_db :: handle
  wps_stor :: handle
  wps_idx :: handle
  wps_max :: int

record WinPostTaskArgs =
  wn_max :: int
  wn_db :: handle
  wn_lw :: handle
  wn_verif :: handle
  wn_full :: handle
  wn_maddrs :: "address list"

text \<open>
  The callees as run.go uses them: \<open>provider.WindowPostScheduler\<close> with the four results
  of its call site, and \<open>lpwinning.NewWinPostTask\<close>, which returns the task alone.
\<close>

record ('f, 'pc, 'c, 's, 'r, 'n, 'e) callees =
  provider_WindowPostScheduler ::
    "('f, 'pc) WindowPostSchedulerCall \<Rightarrow> 'c \<times> 's \<times> 'r \<times> 'e option"
  lpwinning_NewWinPostTask :: "WinPostTaskArgs \<Rightarrow> 'n"

datatype ('f, 'pc, 'c, 's, 'r, 'n) runEffect =
    Call_WindowPostScheduler "('f, 'pc) WindowPostSchedulerCall"
  | Call_NewWinPostTask WinPostTaskArgs
  | Call_harmonytask_New handle "('c, 's, 'r, 'n) TaskInterface list" string

text \<open>
  Lines 147 to 173 of \<open>runCmd.Action\<close>, after \<open>getDeps\<close> has succeeded: the task selection
  and the call \<open>harmonytask.New(db, activeTasks, deps.listenAddr)\<close> that registers the
  selected tasks with the engine. The result is the error with which the action returns
  from the selection, or the slice it hands to the engine.
\<close>

definition taskSelection ::
  "('f, 'pc, 'c, 's, 'r, 'n, 'e) callees \<Rightarrow> handle \<Rightarrow> ('f, 'pc) Deps
     \<Rightarrow> ('e + ('c, 's, 'r, 'n) TaskInterface list) \<times> ('f, 'pc, 'c, 's, 'r, 'n) runEffect list" where
  "taskSelection P ctx deps =
     (let cfg = deps_cfg deps; db = deps_db deps; full = deps_full deps;
          verif = deps_verif deps; lw = deps_lw deps; asel = deps_as deps;
          maddrs = deps_maddrs deps; stor = deps_stor deps; si = deps_si deps;
          activeTasks0 = [];
          wargs = \<lparr>wps_ctx = ctx, wps_fc = Fees cfg, wps_pc = Proving cfg, wps_api = full,
                   wps_verif = verif, wps_lw = lw, wps_as = asel, wps_maddr = maddrs,
                   wps_db = db, wps_stor = stor, wps_idx = si,
                   wps_max = WindowPostMaxTasks (Subsystems cfg)\<rparr>;
          nargs = \<lparr>wn_max = WinningPostMaxTasks (Subsystems cfg), wn_db = db, wn_lw = lw,
                   wn_verif = verif, wn_full = full, wn_maddrs = maddrs\<rparr>;
          step1 =
            (if EnableWindowPost (Subsystems cfg) then
               (case provider_WindowPostScheduler P wargs of
                  (wdPostTask, wdPoStSubmitTask, derlareRecoverTask, Some err) \<Rightarrow>
                    (Inl err, [Call_WindowPostScheduler wargs])
                | (wdPostTask, wdPoStSubmitTask, derlareRecoverTask, None) \<Rightarrow>
                    (Inr (activeTasks0 @ [WdPostTask wdPostTask,
                                          WdPostSubmitTask wdPoStSubmitTask,
                                          DeclareRecoverTask derlareRecoverTask]),
                     [Call_WindowPostScheduler wargs]))
             else (Inr activeTasks0, []))
      in case step1 of
           (Inl err, eff) \<Rightarrow> (Inl err, eff)
         | (Inr activeTasks1, eff) \<Rightarrow>
             (let step2 =
                    (if EnableWinningPost (Subsystems cfg) then
                       (activeTasks1 @ [WinPostTask (lpwinning_NewWinPostTask P nargs)],
                        eff @ [Call_NewWinPostTask nargs])
                     else (activeTasks1, eff))
              in case step2 of
                   (activeTasks, eff2) \<Rightarrow>
                     (Inr activeTasks,
                      eff2 @ [Call_harmonytask_New db activeTasks (deps_listenAddr deps)])))"

text \<open>
  The arguments that \<open>WindowPostScheduler\<close> hands to the two task constructors, written out
  for the statements below.
\<close>

definition computeArgsOf ::
  "handle \<Rightarrow> handle \<Rightarrow> handle \<Rightarrow> address list \<Rightarrow> handle \<Rightarrow> handle \<Rightarrow> handle \<Rightarrow> int
     \<Rightarrow> WdPostTaskArgs" where
  "computeArgsOf api verif lw maddr db stor idx m =
     \<lparr>wa_db = db, wa_api = api,
      wa_ft = \<lparr>ft_storage = stor, ft_index = idx, ft_limit = 32,
               ft_duration1 = 5000000000, ft_duration2 = 300000000000\<rparr>,
      wa_lw = lw, wa_verif = verif, wa_chainSched = \<lparr>pcs_api = api\<rparr>,
      wa_maddr = maddr, wa_max = m\<rparr>"

definition submitArgsOf ::
  "'f LotusProviderFees_scheme \<Rightarrow> handle \<Rightarrow> handle \<Rightarrow> handle \<Rightarrow> WdPostSubmitTaskArgs" where
  "submitArgsOf fc api asel db =
     \<lparr>sa_chainSched = \<lparr>pcs_api = api\<rparr>,
      sa_sender = \<lparr>snd_api = api, snd_signer = api, snd_db = db\<rparr>,
      sa_db = db, sa_api = api, sa_maxFee = MaxWindowPoStGasFee fc, sa_as = asel\<rparr>"

text \<open>
  The arguments that the task selection of run.go hands to \<open>provider.WindowPostScheduler\<close>
  and to \<open>lpwinning.NewWinPostTask\<close>, written out for the statements below.
\<close>

definition windowPostCallOf ::
  "handle \<Rightarrow> ('f, 'pc) Deps \<Rightarrow> ('f, 'pc) WindowPostSchedulerCall" where
  "windowPostCallOf ctx deps =
     \<lparr>wps_ctx = ctx, wps_fc = Fees (deps_cfg deps), wps_pc = Proving (deps_cfg deps),
      wps_api = deps_full deps, wps_verif = deps_verif deps, wps_lw = deps_lw deps,
      wps_as = deps_as deps, wps_maddr = deps_maddrs deps, wps_db = deps_db deps,
      wps_stor = deps_stor deps, wps_idx = deps_si deps,
      wps_max = WindowPostMaxTasks (Subsystems (deps_cfg deps))\<rparr>"

definition winPostArgsOf :: "('f, 'pc) Deps \<Rightarrow> WinPostTaskArgs" where
  "winPostArgsOf deps =
     \<lparr>wn_max = WinningPostMaxTasks (Subsystems (deps_cfg deps)), wn_db = deps_db deps,
      wn_lw = deps_lw deps, wn_verif = deps_verif deps, wn_full = deps_full deps,
      wn_maddrs = deps_maddrs deps\<rparr>"

definition isWindowPostTask :: "('c, 's, 'r, 'n) TaskInterface \<Rightarrow> bool" where
  "isWindowPostTask t = (case t of WinPostTask w \<Rightarrow> False | _ \<Rightarrow> True)"

definition isWinningPostTask :: "('c, 's, 'r, 'n) TaskInterface \<Rightarrow> bool" where
  "isWinningPostTask t = (case t of WinPostTask w \<Rightarrow> True | _ \<Rightarrow> False)"

section \<open>The Proof Submit Task and the Address Selector\<close>

text \<open>
  Modelled from the spec: the Address Selector and the run of the Proof Submit Task
  (packages ctladdr and lpwindow are not among the source files; builder.go only
  constructs the task). In the spec a sender address has funds and a transaction from it
  requires a fee; the selector chooses an address that can pay within the fee ceiling; the
  task hands the transaction to the Message Sender's outbox, and when no address can afford
  it the task fails terminally, raises an alert and is not retried.
\<close>

record Candidate =
  cand_addr :: address
  cand_funds :: int
  cand_requiredFee :: int

definition canAfford :: "int \<Rightarrow> Candidate \<Rightarrow> bool" where
  "canAfford maxFee c = (cand_requiredFee c \<le> maxFee \<and> cand_requiredFee c \<le> cand_funds c)"

text \<open>
  Modelled from the spec: the Address Selector chooses, among the available sender
  addresses in their order, one that can pay within the fee ceiling, or none.
\<close>

definition selectSender :: "int \<Rightarrow> Candidate list \<Rightarrow> Candidate option" where
  "selectSender maxFee cands = find (canAfford maxFee) cands"

text \<open>
  Modelled from the spec: the alerts of the terminal failures, the results of a run of a
  task, the Outbox Message with its sender, payload and max-fee ceiling, and the state the
  run works on (the outbox and the alerts raised so far).
\<close>

datatype alert = Unaffordable | DeadlineExpired | NoProvableSectors

datatype outcome = Submitted | RetryLater | FailedTerminally alert

record OutboxMessage =
  msg_sender :: address
  msg_payload :: string
  msg_maxFee :: int

record World =
  outbox :: "OutboxMessage list"
  alerts :: "alert list"

text \<open>
  Modelled from the spec: the Proof Submit Task keeps the fee ceiling it is constructed
  with; its constructor \<open>lpwindow.NewWdPostSubmitTask\<close> is taken not to fail.
\<close>

record SubmitTask =
  task_maxFee :: int
  task_args :: WdPostSubmitTaskArgs

definition spec_NewWdPostSubmitTask :: "WdPostSubmitTaskArgs \<Rightarrow> 'e + SubmitTask" where
  "spec_NewWdPostSubmitTask a = Inr \<lparr>task_maxFee = sa_maxFee a, task_args = a\<rparr>"

text \<open>
  Modelled from the spec: a run of the Proof Submit Task. It asks the Address Selector for a
  sender under the task's ceiling; without one it fails terminally and raises the alert,
  with one it hands the transaction to the outbox.
\<close>

definition submitDo :: "SubmitTask \<Rightarrow> Candidate list \<Rightarrow> string \<Rightarrow> World \<Rightarrow> outcome \<times> World" where
  "submitDo t cands payload w =
     (case selectSender (task_maxFee t) cands of
        None \<Rightarrow> (FailedTerminally Unaffordable, w\<lparr>alerts := alerts w @ [Unaffordable]\<rparr>)
      | Some c \<Rightarrow>
          (Submitted,
           w\<lparr>outbox := outbox w @ [\<lparr>msg_sender = cand_addr c, msg_payload = payload,
                                      msg_maxFee = task_maxFee t\<rparr>]\<rparr>))"

section \<open>The Chain Scheduler\<close>

text \<open>
  Modelled from the spec: the Chain Scheduler (package chainsched is not among the source
  files; builder.go creates it with \<open>chainsched.New\<close> and starts its loop). A lineage is the
  chain as the reader reports it, the block of every epoch from 0 up to the head. The Chain
  Epoch Cursor holds the last epoch whose callbacks have fired, \<open>-1\<close> before any, and the
  lineage recorded with the last notification. On a notification the step function finds
  the common ancestor of the recorded and the new lineage, takes every epoch strictly above
  it as unfired, and for each epoch that is newly finalized (above the cursor, at most the
  head height minus the lag), in ascending order, invokes every registered callback with
  the head as of that epoch.
\<close>

record 'b ChainEpochCursor =
  lastFired :: int
  lineage :: "'b list"

text \<open>
  Modelled from the spec: the height of a lineage's head, the reader's \<open>head_at(epoch)\<close>
  (no block outside the lineage), and the height of the common ancestor of two lineages,
  \<open>-1\<close> when they share no block.
\<close>

definition height :: "'b list \<Rightarrow> int" where
  "height ch = int (length ch) - 1"

definition head_at :: "'b list \<Rightarrow> int \<Rightarrow> 'b option" where
  "head_at ch e = (if 0 \<le> e \<and> e \<le> height ch then Some (ch ! nat e) else None)"

fun commonPrefix :: "'b list \<Rightarrow> 'b list \<Rightarrow> nat" where
  "commonPrefix (x # xs) (y # ys) = (if x = y then Suc (commonPrefix xs ys) else 0)"
| "commonPrefix xs ys = 0"

definition commonAncestor :: "'b list \<Rightarrow> 'b list \<Rightarrow> int" where
  "commonAncestor old new = int (commonPrefix old new) - 1"

text \<open>
  Modelled from the spec: the epochs newly finalized since the cursor, ascending: those
  above the cursor and at most the head height minus the lag.
\<close>

definition newlyFinalized :: "int \<Rightarrow> nat \<Rightarrow> 'b list \<Rightarrow> int list" where
  "newlyFinalized cur lag ch = [cur + 1 .. height ch - int lag]"

text \<open>
  Modelled from the spec: an invocation is the callback, the head it is given and the
  epoch; for each epoch in the order given, every registered callback is invoked in the
  order of registration with the head as of that epoch.
\<close>

type_synonym ('k, 'b) invocation = "'k \<times> 'b option \<times> int"

definition fire :: "'k list \<Rightarrow> 'b list \<Rightarrow> int list \<Rightarrow> ('k, 'b) invocation list" where
  "fire callbacks ch es =
     concat (map (\<lambda>e. map (\<lambda>cb. (cb, head_at ch e, e)) callbacks) es)"

text \<open>
  Modelled from the spec: the scheduler's step function, from the cursor and a notified
  lineage to the new cursor and the invocations made, in order.
\<close>

definition onHead ::
  "nat \<Rightarrow> 'k list \<Rightarrow> 'b ChainEpochCursor \<Rightarrow> 'b list
     \<Rightarrow> 'b ChainEpochCursor \<times> ('k, 'b) invocation list" where
  "onHead lag callbacks cur ch =
     (let unfired = min (lastFired cur) (commonAncestor (lineage cur) ch)
      in (\<lparr>lastFired = max unfired (height ch - int lag), lineage = ch\<rparr>,
          fire callbacks ch (newlyFinalized unfired lag ch)))"

text \<open>
  Modelled from the spec: the scheduling loop over a sequence of notifications, one step
  after the other on a single loop.
\<close>

fun runHeads ::
  "nat \<Rightarrow> 'k list \<Rightarrow> 'b ChainEpochCursor \<Rightarrow> 'b list list
     \<Rightarrow> 'b ChainEpochCursor \<times> ('k, 'b) invocation list" where
  "runHeads lag callbacks cur [] = (cur, [])"
| "runHeads lag callbacks cur (ch # chs) =
     (case onHead lag callbacks cur ch of
        (cur', fired) \<Rightarrow>
          (case runHeads lag callbacks cur' chs of
             (cur'', fired') \<Rightarrow> (cur'', fired @ fired')))"

text \<open>
  For the statements: the epoch of an invocation, and a lineage (or each of a sequence of
  lineages) extending the one before it, which is a notification without a reorg.
\<close>

definition epochOf :: "('k, 'b) invocation \<Rightarrow> int" where
  "epochOf i = snd (snd i)"

definition extends :: "'b list \<Rightarrow> 'b list \<Rightarrow> bool" where
  "extends old new = (take (length old) new = old)"

fun extending :: "'b list \<Rightarrow> 'b list list \<Rightarrow> bool" where
  "extending old [] = True"
| "extending old (ch # chs) = (extends old ch \<and> extending ch chs)"

section \<open>The Fault Tracker\<close>

text \<open>
  Modelled from the spec: which of the two durations of the constructor call is the bound
  of a reachability check and which is the TTL of a cached entry (package lpwindow is not
  among the source files, and neither builder.go nor the spec names the arguments). The
  spec's Fault Tracker has both; the reading of the call is a parameter, and the first
  reading is the order in which the spec introduces them.
\<close>

datatype durationReading = TimeoutThenTTL | TTLThenTimeout

definition probeTimeout :: "durationReading \<Rightarrow> SimpleFaultTracker \<Rightarrow> int" where
  "probeTimeout r ft =
     sint (case r of TimeoutThenTTL \<Rightarrow> ft_duration1 ft | TTLThenTimeout \<Rightarrow> ft_duration2 ft)"

definition cacheTTL :: "durationReading \<Rightarrow> SimpleFaultTracker \<Rightarrow> int" where
  "cacheTTL r ft =
     sint (case r of TimeoutThenTTL \<Rightarrow> ft_duration2 ft | TTLThenTimeout \<Rightarrow> ft_duration1 ft)"

text \<open>
  Modelled from the spec: the Sector Health Entry (last-checked timestamp and reachable
  flag, keyed by sector identifier in the cache) and what the storage does when it is asked
  for a sector: it answers after some time, or not at all. Times are nanoseconds.
\<close>

record SectorHealthEntry =
  lastChecked :: int
  reachable :: bool

type_synonym healthCache = "nat \<Rightarrow> SectorHealthEntry option"

datatype storageAnswer = Answers nat bool | NeverAnswers

text \<open>
  Modelled from the spec: the bounded-time reachability check. It waits for the storage no
  longer than the timeout; a storage timeout counts as unhealthy. The result is the time
  the check took and the outcome.
\<close>

definition reachabilityCheck :: "int \<Rightarrow> storageAnswer \<Rightarrow> int \<times> bool" where
  "reachabilityCheck timeout a =
     (case a of
        Answers d ok \<Rightarrow> if int d \<le> timeout then (int d, ok) else (timeout, False)
      | NeverAnswers \<Rightarrow> (timeout, False))"

text \<open>
  Modelled from the spec: an entry is trusted before its check time plus the TTL; an older
  entry is unknown and must be probed again.
\<close>

definition fresh :: "int \<Rightarrow> int \<Rightarrow> SectorHealthEntry \<Rightarrow> bool" where
  "fresh ttl now e = (now < lastChecked e + ttl)"

text \<open>
  Modelled from the spec: the probe of one sector at time \<open>now\<close>. A fresh entry is
  answered from the cache without I/O; for a missing or stale entry the reachability check
  runs and its outcome, a failure included, is cached with the time of the probe. The
  result is the health, the time spent, whether the check ran, and the cache afterwards.
\<close>

record ProbeResult =
  healthy :: bool
  elapsed :: int
  checked :: bool

definition probeSector ::
  "durationReading \<Rightarrow> SimpleFaultTracker \<Rightarrow> (nat \<Rightarrow> storageAnswer) \<Rightarrow> int \<Rightarrow> nat
     \<Rightarrow> healthCache \<Rightarrow> ProbeResult \<times> healthCache" where
  "probeSector r ft storage now sector cache =
     (let rerun =
            (case reachabilityCheck (probeTimeout r ft) (storage sector) of
               (spent, ok) \<Rightarrow>
                 (\<lparr>healthy = ok, elapsed = spent, checked = True\<rparr>,
                  cache(sector \<mapsto> \<lparr>lastChecked = now, reachable = ok\<rparr>)))
      in case cache sector of
           None \<Rightarrow> rerun
         | Some e \<Rightarrow>
             if fresh (cacheTTL r ft) now e
             then (\<lparr>healthy = reachable e, elapsed = 0, checked = False\<rparr>, cache)
             else rerun)"

section \<open>Example inputs\<close>

definition exampleExternal :: "(unit, unit, string, nat, nat) external" where
  "exampleExternal =
     \<lparr>store_Get = (\<lambda>st root.
         if root = ''root''
         then Inr \<lparr>State_RootKey = ''f080'', State_Verifiers = ''verifiers'',
                   State_RemoveDataCapProposalIDs = ''proposals''\<rparr>
         else Inl ''not found''),
      adt10_AsMap = (\<lambda>st c bw. if c = ''verifiers'' then Inr [(''f01'', 10), (''f02'', 20)]
                                else Inl ''not found''),
      FindAllocation = (\<lambda>st s a i. if i = 1 then (Some 7, True, None) else (None, False, None)),
      FindClaim = (\<lambda>st s a i. if i = 2 then (Some 9, True, None) else (None, False, None))\<rparr>"

definition exampleLpwindow :: "bool \<Rightarrow> bool \<Rightarrow> (string, string, string) lpwindow" where
  "exampleLpwindow ok1 ok2 =
     \<lparr>NewWdPostTask = (\<lambda>a. if ok1 then Inr ''compute'' else Inl ''compute failed''),
      NewWdPostSubmitTask = (\<lambda>a. if ok2 then Inr ''submit'' else Inl ''submit failed'')\<rparr>"

definition exampleFees :: LotusProviderFees where
  "exampleFees = \<lparr>MaxWindowPoStGasFee = 100\<rparr>"

definition exampleDeps :: "bool \<Rightarrow> bool \<Rightarrow> (unit, unit) Deps" where
  "exampleDeps window winning =
     \<lparr>deps_cfg = \<lparr>Subsystems = \<lparr>EnableWindowPost = window, WindowPostMaxTasks = 4,
                                  EnableWinningPost = winning, WinningPostMaxTasks = 2\<rparr>,
                  Fees = exampleFees, Proving = ()\<rparr>,
      deps_db = 1, deps_full = 2, deps_verif = 3, deps_lw = 4, deps_as = 5,
      deps_maddrs = [''f01234''], deps_stor = 6, deps_si = 7, deps_localStore = 8,
      deps_listenAddr = ''10.0.0.1:12300''\<rparr>"

definition exampleCallees ::
  "bool \<Rightarrow> (unit, unit, string option, string option, string option, string option, string)
             callees" where
  "exampleCallees ok =
     \<lparr>provider_WindowPostScheduler =
        (\<lambda>a. if ok then (Some ''WdPost'', Some ''WdPostSubmit'', Some ''WdPostRecover'', None)
              else (None, None, None, Some ''scheduler failed'')),
      lpwinning_NewWinPostTask = (\<lambda>a. Some ''WinPost'')\<rparr>"

definition exampleSpecLpwindow :: "(string, SubmitTask, string) lpwindow" where
  "exampleSpecLpwindow =
     \<lparr>NewWdPostTask = (\<lambda>a. Inr ''compute''),
      NewWdPostSubmitTask = spec_NewWdPostSubmitTask\<rparr>"

definition exampleCandidates :: "Candidate list" where
  "exampleCandidates = [\<lparr>cand_addr = ''f3payer'', cand_funds = 1000, cand_requiredFee = 150\<rparr>]"

definition exampleWorld :: World where
  "exampleWorld = \<lparr>outbox = [], alerts = []\<rparr>"

definition exampleCursor :: "nat ChainEpochCursor" where
  "exampleCursor = \<lparr>lastFired = 9, lineage = [100, 101, 102, 103, 104, 105, 106, 107, 108, 109]\<rparr>"

definition exampleChainA :: "nat list" where
  "exampleChainA = [100, 101, 102, 103, 104, 105, 106, 107, 108, 109, 110, 111, 112]"

definition exampleChainB :: "nat list" where
  "exampleChainB = [100, 101, 102, 103, 104, 105, 106, 107, 108, 109, 110, 211, 212]"



definition exampleChain11 :: "nat list" where
  "exampleChain11 = [100, 101, 102, 103, 104, 105, 106, 107, 108, 109, 110, 111]"

definition exampleChainB13 :: "nat list" where
  "exampleChainB13 = [100, 101, 102, 103, 104, 105, 106, 107, 108, 109, 110, 211, 212, 213]"

section \<open>Properties of the v10 adapter\<close>

text \<open>
  C10. \<open>RootKey\<close> cannot fail: on every v10 state, and so on every state that \<open>load10\<close>
  returns, the result is the root key of the embedded state with a nil error, while
  \<open>VerifiedClientDataCap\<close> of the same interface answers with the unsupported error.
\<close>

theorem RootKey_never_fails:
  "RootKey s = (State_RootKey (State s), None)
   \<and> snd (RootKey s) \<noteq> Some unsupported
   \<and> snd (snd (VerifiedClientDataCap s addr)) = Some unsupported
   \<and> (\<forall>out. store_Get X st root = Inr out \<longrightarrow>
        (\<exists>s'. load10 X st root = Inr s' \<and> RootKey s' = (State_RootKey out, None)))"
  by (simp add: RootKey_def VerifiedClientDataCap_def load10_def)

theorem RootKey_never_fails_witness:
  "store_Get exampleExternal () ''root''
     = Inr \<lparr>State_RootKey = ''f080'', State_Verifiers = ''verifiers'',
             State_RemoveDataCapProposalIDs = ''proposals''\<rparr>
   \<and> (\<exists>s'. load10 exampleExternal () ''root'' = Inr s'
         \<and> RootKey s' = (''f080'', None :: string error option))"
proof -
  have h: "store_Get exampleExternal () ''root''
     = Inr \<lparr>State_RootKey = ''f080'', State_Verifiers = ''verifiers'',
             State_RemoveDataCapProposalIDs = ''proposals''\<rparr>"
    by (simp add: exampleExternal_def)
  from RootKey_never_fails [of _ _ exampleExternal "()" "''root''"] h
  have "\<exists>s'. load10 exampleExternal () ''root'' = Inr s'
         \<and> RootKey s' = (''f080'', None :: string error option)"
    by fastforce
  with h show ?thesis by simp
qed

text \<open>
  C1. On every v10 state and for every address the two accessors that the v10 schema has
  no data for return the explicit error "unsupported in actors v10", never \<open>nil\<close>:
  \<open>VerifiedClientDataCap\<close> answers \<open>found = false\<close> and power zero with it, and
  \<open>ForEachClient\<close> gives the caller's state back as it got it whatever the callback is, so
  the callback has not run (a callback that counts its calls still shows zero).
\<close>

theorem v10_unsupported_accessors:
  "VerifiedClientDataCap s addr = (False, 0, Some (Errorf ''unsupported in actors v10''))
   \<and> ForEachClient s cb a = (Some (Errorf ''unsupported in actors v10''), a)
   \<and> fst (ForEachClient s cb a) \<noteq> None
   \<and> snd (snd (VerifiedClientDataCap s addr)) \<noteq> None
   \<and> snd (ForEachClient s (\<lambda>addr dcap n. (None, Suc n)) (0::nat)) = 0"
  by (simp add: VerifiedClientDataCap_def ForEachClient_def unsupported_def)

lemma Foreign_not_unsupported: "Foreign z \<noteq> unsupported"
  by (simp add: unsupported_def)

lemma forEachCap_verifiers_supported:
  "fst (forEachCap (verifiers X s) cb a) \<noteq> Some unsupported"
proof (cases "adt10_AsMap X (store s) (State_Verifiers (State s)) DefaultHamtBitwidth")
  case (Inl err)
  then show ?thesis
    by (simp add: forEachCap_def verifiers_def unsupported_def)
next
  case (Inr vh)
  obtain r a' where "forEachEntry vh cb a = (r, a')"
    by (cases "forEachEntry vh cb a")
  with Inr show ?thesis
    by (simp add: forEachCap_def verifiers_def Foreign_not_unsupported)
qed

text \<open>
  C3. On every v10 state the three accessors the core consumes are supported. None of
  them returns the unsupported error. \<open>GetAllocation\<close> and \<open>GetClaim\<close> return the pointer,
  the \<open>found\<close> flag and the error of \<open>FindAllocation\<close> and \<open>FindClaim\<close> on the embedded state
  and the store, so \<open>found\<close> is false exactly when the lookup says so. \<open>ForEachVerifier\<close> walks
  the map under the state's \<open>Verifiers\<close> root.
\<close>

theorem v10_supported_accessors:
  "fst (GetAllocation X s client i) = fst (FindAllocation X (State s) (store s) client i)
   \<and> fst (snd (GetAllocation X s client i))
       = fst (snd (FindAllocation X (State s) (store s) client i))
   \<and> snd (snd (GetAllocation X s client i))
       = map_option Foreign (snd (snd (FindAllocation X (State s) (store s) client i)))
   \<and> snd (snd (GetAllocation X s client i)) \<noteq> Some unsupported
   \<and> fst (GetClaim X s provider j) = fst (FindClaim X (State s) (store s) provider j)
   \<and> fst (snd (GetClaim X s provider j))
       = fst (snd (FindClaim X (State s) (store s) provider j))
   \<and> snd (snd (GetClaim X s provider j))
       = map_option Foreign (snd (snd (FindClaim X (State s) (store s) provider j)))
   \<and> snd (snd (GetClaim X s provider j)) \<noteq> Some unsupported
   \<and> fst (ForEachVerifier X s cb a) \<noteq> Some unsupported
   \<and> ForEachVerifier X s cb a
       = forEachCap (map_sum Foreign id
           (adt10_AsMap X (store s) (State_Verifiers (State s)) DefaultHamtBitwidth)) cb a"
proof -
  have va: "verifiers X s
      = map_sum Foreign id
          (adt10_AsMap X (store s) (State_Verifiers (State s)) DefaultHamtBitwidth)"
    by (simp add: verifiers_def split: sum.splits)
  show ?thesis
    unfolding ForEachVerifier_def
    using forEachCap_verifiers_supported [of X s cb a] va
    by (simp add: GetAllocation_def GetClaim_def Foreign_not_unsupported split: prod.splits)
qed

section \<open>Properties of the builder and of the task selection\<close>

lemma WPS_trace:
  "snd (WindowPostScheduler L ctx fc pc api verif lw asel maddr db stor idx m) =
     [Call_chainsched_New api,
      Call_NewSimpleFaultTracker stor idx 32 5000000000 300000000000,
      Call_NewSender api api db,
      Call_NewWdPostTask (computeArgsOf api verif lw maddr db stor idx m)]
     @ (case NewWdPostTask L (computeArgsOf api verif lw maddr db stor idx m) of
          Inl err \<Rightarrow> []
        | Inr ct \<Rightarrow>
            Call_NewWdPostSubmitTask (submitArgsOf fc api asel db)
            # (case NewWdPostSubmitTask L (submitArgsOf fc api asel db) of
                 Inl err \<Rightarrow> []
               | Inr st \<Rightarrow> [Go_chainSched_Run ctx \<lparr>pcs_api = api\<rparr>]))"
  by (simp add: WindowPostScheduler_def Let_def computeArgsOf_def submitArgsOf_def
      chainsched_New_def NewSimpleFaultTracker_def NewSender_def Second_def
      split: sum.splits)

lemma WPS_result:
  "fst (WindowPostScheduler L ctx fc pc api verif lw asel maddr db stor idx m) =
     (case NewWdPostTask L (computeArgsOf api verif lw maddr db stor idx m) of
        Inl err \<Rightarrow> (None, None, Some err)
      | Inr ct \<Rightarrow>
          (case NewWdPostSubmitTask L (submitArgsOf fc api asel db) of
             Inl err \<Rightarrow> (None, None, Some err)
           | Inr st \<Rightarrow> (Some ct, Some st, None)))"
  by (simp add: WindowPostScheduler_def Let_def computeArgsOf_def submitArgsOf_def
      chainsched_New_def NewSimpleFaultTracker_def NewSender_def Second_def
      split: sum.splits)

lemma TS_result:
  "fst (taskSelection P ctx deps) =
     (case (if EnableWindowPost (Subsystems (deps_cfg deps))
            then (case provider_WindowPostScheduler P (windowPostCallOf ctx deps) of
                    (c, s, r, Some err) \<Rightarrow> Inl err
                  | (c, s, r, None) \<Rightarrow>
                      Inr [WdPostTask c, WdPostSubmitTask s, DeclareRecoverTask r])
            else Inr []) of
        Inl err \<Rightarrow> Inl err
      | Inr ts \<Rightarrow>
          Inr (ts @ (if EnableWinningPost (Subsystems (deps_cfg deps))
                     then [WinPostTask (lpwinning_NewWinPostTask P (winPostArgsOf deps))]
                     else [])))"
  by (simp add: taskSelection_def Let_def windowPostCallOf_def winPostArgsOf_def
      split: prod.splits option.splits sum.splits)

lemma TS_trace:
  "snd (taskSelection P ctx deps) =
     (if EnableWindowPost (Subsystems (deps_cfg deps))
      then [Call_WindowPostScheduler (windowPostCallOf ctx deps)] else [])
     @ (case fst (taskSelection P ctx deps) of
          Inl err \<Rightarrow> []
        | Inr ts \<Rightarrow>
            (if EnableWinningPost (Subsystems (deps_cfg deps))
             then [Call_NewWinPostTask (winPostArgsOf deps)] else [])
            @ [Call_harmonytask_New (deps_db deps) ts (deps_listenAddr deps)])"
  by (simp add: taskSelection_def Let_def windowPostCallOf_def winPostArgsOf_def
      split: prod.splits option.splits sum.splits)





lemma probeSector_fresh:
  "cache sector = Some e \<Longrightarrow> now < lastChecked e + cacheTTL r ft \<Longrightarrow>
     probeSector r ft storage now sector cache
       = (\<lparr>healthy = reachable e, elapsed = 0, checked = False\<rparr>, cache)"
  by (simp add: probeSector_def Let_def fresh_def)




text \<open>
  C7. The bound on concurrent proof computations is the caller's configuration value:
  \<open>WindowPostScheduler\<close> calls \<open>NewWdPostTask\<close> once, with its own \<open>max\<close> argument as the
  bound; the task selection of run.go calls \<open>WindowPostScheduler\<close> (when window post is
  enabled) with \<open>cfg.Subsystems.WindowPostMaxTasks\<close> as that argument; so on the arguments
  run.go passes, the bound handed to the Proof Compute Task is \<open>WindowPostMaxTasks\<close>.
\<close>

theorem compute_bound_is_configured:
  "[wa_max a. Call_NewWdPostTask a
      \<leftarrow> snd (WindowPostScheduler L ctx fc pc api verif lw asel maddr db stor idx m)] = [m]
   \<and> [wps_max a. Call_WindowPostScheduler a \<leftarrow> snd (taskSelection P ctx deps)]
     = (if EnableWindowPost (Subsystems (deps_cfg deps))
        then [WindowPostMaxTasks (Subsystems (deps_cfg deps))] else [])
   \<and> [wa_max a. Call_NewWdPostTask a
        \<leftarrow> snd (WindowPostScheduler L (wps_ctx (windowPostCallOf ctx deps))
                 (wps_fc (windowPostCallOf ctx deps)) (wps_pc (windowPostCallOf ctx deps))
                 (wps_api (windowPostCallOf ctx deps)) (wps_verif (windowPostCallOf ctx deps))
                 (wps_lw (windowPostCallOf ctx deps)) (wps_as (windowPostCallOf ctx deps))
                 (wps_maddr (windowPostCallOf ctx deps)) (wps_db (windowPostCallOf ctx deps))
                 (wps_stor (windowPostCallOf ctx deps)) (wps_idx (windowPostCallOf ctx deps))
                 (wps_max (windowPostCallOf ctx deps)))]
     = [WindowPostMaxTasks (Subsystems (deps_cfg deps))]"
proof (intro conjI)
  show "[wa_max a. Call_NewWdPostTask a
      \<leftarrow> snd (WindowPostScheduler L ctx fc pc api verif lw asel maddr db stor idx m)] = [m]"
    by (auto simp add: WPS_trace computeArgsOf_def split: sum.splits)
  show "[wps_max a. Call_WindowPostScheduler a \<leftarrow> snd (taskSelection P ctx deps)]
     = (if EnableWindowPost (Subsystems (deps_cfg deps))
        then [WindowPostMaxTasks (Subsystems (deps_cfg deps))] else [])"
    by (subst TS_trace) (auto simp add: windowPostCallOf_def split: sum.splits)
  show "[wa_max a. Call_NewWdPostTask a
        \<leftarrow> snd (WindowPostScheduler L (wps_ctx (windowPostCallOf ctx deps))
                 (wps_fc (windowPostCallOf ctx deps)) (wps_pc (windowPostCallOf ctx deps))
                 (wps_api (windowPostCallOf ctx deps)) (wps_verif (windowPostCallOf ctx deps))
                 (wps_lw (windowPostCallOf ctx deps)) (wps_as (windowPostCallOf ctx deps))
                 (wps_maddr (windowPostCallOf ctx deps)) (wps_db (windowPostCallOf ctx deps))
                 (wps_stor (windowPostCallOf ctx deps)) (wps_idx (windowPostCallOf ctx deps))
                 (wps_max (windowPostCallOf ctx deps)))]
     = [WindowPostMaxTasks (Subsystems (deps_cfg deps))]"
    by (auto simp add: WPS_trace computeArgsOf_def windowPostCallOf_def split: sum.splits)
qed

text \<open>
  C9. If constructing the Proof Compute Task fails, \<open>WindowPostScheduler\<close> returns
  \<open>(nil, nil, err)\<close> with that error, does not call the constructor of the Proof Submit
  Task and does not start the loop. Whenever the chain scheduler loop is started, it is the
  last thing the call does, after both constructors have returned a task, and the call
  returns both tasks. The loop is never started twice in a call: it is started once in
  every call that constructs both tasks, and a call that returns an error has not started
  it.
\<close>

theorem scheduler_loop_started_after_both_tasks:
  "(NewWdPostTask L (computeArgsOf api verif lw maddr db stor idx m) = Inl err \<longrightarrow>
      fst (WindowPostScheduler L ctx fc pc api verif lw asel maddr db stor idx m)
        = (None, None, Some err)
      \<and> [a. Call_NewWdPostSubmitTask a
            \<leftarrow> snd (WindowPostScheduler L ctx fc pc api verif lw asel maddr db stor idx m)] = []
      \<and> [c. Go_chainSched_Run c s
            \<leftarrow> snd (WindowPostScheduler L ctx fc pc api verif lw asel maddr db stor idx m)] = [])
   \<and> (\<forall>c s. Go_chainSched_Run c s
          \<in> set (snd (WindowPostScheduler L ctx fc pc api verif lw asel maddr db stor idx m)) \<longrightarrow>
        c = ctx \<and> s = chainsched_New api
        \<and> (\<exists>ct st.
              NewWdPostTask L (computeArgsOf api verif lw maddr db stor idx m) = Inr ct
              \<and> NewWdPostSubmitTask L (submitArgsOf fc api asel db) = Inr st
              \<and> fst (WindowPostScheduler L ctx fc pc api verif lw asel maddr db stor idx m)
                  = (Some ct, Some st, None)
              \<and> snd (WindowPostScheduler L ctx fc pc api verif lw asel maddr db stor idx m)
                  = [Call_chainsched_New api,
                     Call_NewSimpleFaultTracker stor idx 32 (5 * Second) (300 * Second),
                     Call_NewSender api api db,
                     Call_NewWdPostTask (computeArgsOf api verif lw maddr db stor idx m),
                     Call_NewWdPostSubmitTask (submitArgsOf fc api asel db),
                     Go_chainSched_Run ctx (chainsched_New api)]))
   \<and> length [c. Go_chainSched_Run c s
        \<leftarrow> snd (WindowPostScheduler L ctx fc pc api verif lw asel maddr db stor idx m)]
     = (if isl (NewWdPostTask L (computeArgsOf api verif lw maddr db stor idx m))
           \<or> isl (NewWdPostSubmitTask L (submitArgsOf fc api asel db))
        then 0 else 1)"
  by (auto simp add: WPS_trace WPS_result chainsched_New_def Second_def split: sum.splits)

theorem scheduler_loop_started_after_both_tasks_witness:
  "NewWdPostTask (exampleLpwindow False True) (computeArgsOf 2 3 4 [''f01234''] 1 6 7 4)
     = Inl ''compute failed''
   \<and> fst (WindowPostScheduler (exampleLpwindow False True) 0 exampleFees () 2 3 4 5
            [''f01234''] 1 6 7 4) = (None, None, Some ''compute failed'')
   \<and> Go_chainSched_Run 0 (chainsched_New 2)
       \<in> set (snd (WindowPostScheduler (exampleLpwindow True True) 0 exampleFees () 2 3 4 5
                     [''f01234''] 1 6 7 4))
   \<and> fst (WindowPostScheduler (exampleLpwindow True True) 0 exampleFees () 2 3 4 5
            [''f01234''] 1 6 7 4) = (Some ''compute'', Some ''submit'', None)"
proof -
  have f: "NewWdPostTask (exampleLpwindow False True) (computeArgsOf 2 3 4 [''f01234''] 1 6 7 4)
     = Inl ''compute failed''"
    by (simp add: exampleLpwindow_def)
  have r: "Go_chainSched_Run 0 (chainsched_New 2)
       \<in> set (snd (WindowPostScheduler (exampleLpwindow True True) 0 exampleFees () 2 3 4 5
                     [''f01234''] 1 6 7 4))"
    by (simp add: WPS_trace exampleLpwindow_def chainsched_New_def)
  from scheduler_loop_started_after_both_tasks
         [of "exampleLpwindow False True" 2 3 4 "[''f01234'']" 1 6 7 4 "''compute failed''"
             0 exampleFees "()" 5]
       f
  have a: "fst (WindowPostScheduler (exampleLpwindow False True) 0 exampleFees () 2 3 4 5
            [''f01234''] 1 6 7 4) = (None, None, Some ''compute failed'')"
    by blast
  from scheduler_loop_started_after_both_tasks
         [of "exampleLpwindow True True" 2 3 4 "[''f01234'']" 1 6 7 4 "''x''"
             0 exampleFees "()" 5]
       r
  have b: "fst (WindowPostScheduler (exampleLpwindow True True) 0 exampleFees () 2 3 4 5
            [''f01234''] 1 6 7 4) = (Some ''compute'', Some ''submit'', None)"
    by (auto simp add: exampleLpwindow_def)
  show ?thesis using f r a b by simp
qed

text \<open>
  C2, as amended. \<open>WindowPostScheduler\<close> of builder.go constructs exactly one Proof Compute
  Task and one Proof Submit Task and, when both constructions succeed, returns these two.
  The task selection of run.go takes three tasks from its call of
  \<open>provider.WindowPostScheduler\<close> and, when window post is enabled and the call succeeds,
  hands all three to the engine as its window-post tasks: the compute task, the submit task
  and the declare-recover task, in this order.
\<close>

theorem window_post_tasks_built_and_registered:
  "(\<forall>ct st.
      NewWdPostTask L (computeArgsOf api verif lw maddr db stor idx m) = Inr ct
      \<and> NewWdPostSubmitTask L (submitArgsOf fc api asel db) = Inr st \<longrightarrow>
        fst (WindowPostScheduler L ctx fc pc api verif lw asel maddr db stor idx m)
          = (Some ct, Some st, None)
        \<and> [a. Call_NewWdPostTask a
              \<leftarrow> snd (WindowPostScheduler L ctx fc pc api verif lw asel maddr db stor idx m)]
          = [computeArgsOf api verif lw maddr db stor idx m]
        \<and> [a. Call_NewWdPostSubmitTask a
              \<leftarrow> snd (WindowPostScheduler L ctx fc pc api verif lw asel maddr db stor idx m)]
          = [submitArgsOf fc api asel db])
   \<and> (\<forall>c s r.
        EnableWindowPost (Subsystems (deps_cfg deps))
        \<and> provider_WindowPostScheduler P (windowPostCallOf ctx' deps) = (c, s, r, None) \<longrightarrow>
          (\<exists>ts. fst (taskSelection P ctx' deps) = Inr ts
             \<and> filter isWindowPostTask ts
                 = [WdPostTask c, WdPostSubmitTask s, DeclareRecoverTask r]
             \<and> [l. Call_harmonytask_New d l a \<leftarrow> snd (taskSelection P ctx' deps)] = [ts]))"
proof (intro conjI allI impI)
  fix ct st
  assume h: "NewWdPostTask L (computeArgsOf api verif lw maddr db stor idx m) = Inr ct
      \<and> NewWdPostSubmitTask L (submitArgsOf fc api asel db) = Inr st"
  show "fst (WindowPostScheduler L ctx fc pc api verif lw asel maddr db stor idx m)
          = (Some ct, Some st, None)"
    using h by (simp add: WPS_result)
  show "[a. Call_NewWdPostTask a
              \<leftarrow> snd (WindowPostScheduler L ctx fc pc api verif lw asel maddr db stor idx m)]
          = [computeArgsOf api verif lw maddr db stor idx m]"
    using h by (simp add: WPS_trace)
  show "[a. Call_NewWdPostSubmitTask a
              \<leftarrow> snd (WindowPostScheduler L ctx fc pc api verif lw asel maddr db stor idx m)]
          = [submitArgsOf fc api asel db]"
    using h by (simp add: WPS_trace)
next
  fix c s r
  assume h: "EnableWindowPost (Subsystems (deps_cfg deps))
        \<and> provider_WindowPostScheduler P (windowPostCallOf ctx' deps) = (c, s, r, None)"
  have res: "fst (taskSelection P ctx' deps)
      = Inr ([WdPostTask c, WdPostSubmitTask s, DeclareRecoverTask r]
             @ (if EnableWinningPost (Subsystems (deps_cfg deps))
                then [WinPostTask (lpwinning_NewWinPostTask P (winPostArgsOf deps))]
                else []))"
    using h by (simp add: TS_result)
  have tr: "[l. Call_harmonytask_New d l a \<leftarrow> snd (taskSelection P ctx' deps)]
      = [[WdPostTask c, WdPostSubmitTask s, DeclareRecoverTask r]
         @ (if EnableWinningPost (Subsystems (deps_cfg deps))
            then [WinPostTask (lpwinning_NewWinPostTask P (winPostArgsOf deps))]
            else [])]"
    by (subst TS_trace) (simp add: res h)
  show "\<exists>ts. fst (taskSelection P ctx' deps) = Inr ts
             \<and> filter isWindowPostTask ts
                 = [WdPostTask c, WdPostSubmitTask s, DeclareRecoverTask r]
             \<and> [l. Call_harmonytask_New d l a \<leftarrow> snd (taskSelection P ctx' deps)] = [ts]"
    by (simp add: res tr isWindowPostTask_def)
qed

theorem window_post_tasks_built_and_registered_witness:
  "fst (WindowPostScheduler (exampleLpwindow True True) 0 exampleFees () 2 3 4 5
          [''f01234''] 1 6 7 4) = (Some ''compute'', Some ''submit'', None)
   \<and> (\<exists>ts. fst (taskSelection (exampleCallees True) 0 (exampleDeps True True)) = Inr ts
        \<and> filter isWindowPostTask ts
            = [WdPostTask (Some ''WdPost''), WdPostSubmitTask (Some ''WdPostSubmit''),
               DeclareRecoverTask (Some ''WdPostRecover'')])"
proof -
  have h1: "NewWdPostTask (exampleLpwindow True True)
               (computeArgsOf 2 3 4 [''f01234''] 1 6 7 4) = Inr ''compute''
      \<and> NewWdPostSubmitTask (exampleLpwindow True True)
               (submitArgsOf exampleFees 2 5 1) = Inr ''submit''"
    by (simp add: exampleLpwindow_def)
  have h2: "EnableWindowPost (Subsystems (deps_cfg (exampleDeps True True)))
      \<and> provider_WindowPostScheduler (exampleCallees True)
          (windowPostCallOf 0 (exampleDeps True True))
        = (Some ''WdPost'', Some ''WdPostSubmit'', Some ''WdPostRecover'', None)"
    by (simp add: exampleDeps_def exampleCallees_def)
  note t = window_post_tasks_built_and_registered
             [of "exampleLpwindow True True" 2 3 4 "[''f01234'']" 1 6 7 4 exampleFees 5 0 "()"
                 "exampleDeps True True" "exampleCallees True" 0]
  from t h1 have a: "fst (WindowPostScheduler (exampleLpwindow True True) 0 exampleFees ()
          2 3 4 5 [''f01234''] 1 6 7 4) = (Some ''compute'', Some ''submit'', None)"
    by blast
  from t h2 have b: "\<exists>ts. fst (taskSelection (exampleCallees True) 0 (exampleDeps True True))
          = Inr ts
        \<and> filter isWindowPostTask ts
            = [WdPostTask (Some ''WdPost''), WdPostSubmitTask (Some ''WdPostSubmit''),
               DeclareRecoverTask (Some ''WdPostRecover'')]"
    by blast
  show ?thesis using a b by simp
qed

text \<open>
  The claim as stated has the worker register the two proving tasks and no other
  window-post task. With window post enabled and winning post disabled the slice handed to
  \<open>harmonytask.New\<close> has a third element, the declare-recover task.
\<close>

theorem only_two_window_post_tasks_counterexample:
  "fst (taskSelection (exampleCallees True) 0 (exampleDeps True False))
     = Inr [WdPostTask (Some ''WdPost''), WdPostSubmitTask (Some ''WdPostSubmit''),
            DeclareRecoverTask (Some ''WdPostRecover'')]
   \<and> fst (taskSelection (exampleCallees True) 0 (exampleDeps True False))
     \<noteq> Inr [WdPostTask (Some ''WdPost''), WdPostSubmitTask (Some ''WdPostSubmit'')]
   \<and> [l. Call_harmonytask_New d l a
        \<leftarrow> snd (taskSelection (exampleCallees True) 0 (exampleDeps True False))]
     = [[WdPostTask (Some ''WdPost''), WdPostSubmitTask (Some ''WdPostSubmit''),
         DeclareRecoverTask (Some ''WdPostRecover'')]]"
proof -
  have res: "fst (taskSelection (exampleCallees True) 0 (exampleDeps True False))
     = Inr [WdPostTask (Some ''WdPost''), WdPostSubmitTask (Some ''WdPostSubmit''),
            DeclareRecoverTask (Some ''WdPostRecover'')]"
    by (simp add: TS_result exampleCallees_def exampleDeps_def)
  have tr: "[l. Call_harmonytask_New d l a
        \<leftarrow> snd (taskSelection (exampleCallees True) 0 (exampleDeps True False))]
     = [[WdPostTask (Some ''WdPost''), WdPostSubmitTask (Some ''WdPostSubmit''),
         DeclareRecoverTask (Some ''WdPostRecover'')]]"
  proof -
    have en: "EnableWindowPost (Subsystems (deps_cfg (exampleDeps True False))) = True"
      "EnableWinningPost (Subsystems (deps_cfg (exampleDeps True False))) = False"
      by (simp_all add: exampleDeps_def)
    show ?thesis
      by (subst TS_trace) (simp add: res en)
  qed
  show ?thesis
    by (simp add: res tr)
qed

text \<open>
  C8. The slice that run.go hands to \<open>harmonytask.New\<close> holds window-post tasks if and only
  if \<open>EnableWindowPost\<close> is set, and a winning-post task if and only if \<open>EnableWinningPost\<close>
  is set: it is the tasks returned by \<open>WindowPostScheduler\<close> when window post is enabled,
  followed by the task of \<open>NewWinPostTask\<close> when winning post is enabled, and nothing
  else. When the selection returns with an error, no slice is handed to the engine at all.
\<close>

theorem registered_tasks_follow_config:
  "(\<forall>ts. fst (taskSelection P ctx deps) = Inr ts \<longrightarrow>
      ((\<exists>t \<in> set ts. isWindowPostTask t) \<longleftrightarrow> EnableWindowPost (Subsystems (deps_cfg deps)))
      \<and> ((\<exists>t \<in> set ts. isWinningPostTask t) \<longleftrightarrow> EnableWinningPost (Subsystems (deps_cfg deps)))
      \<and> ts = (if EnableWindowPost (Subsystems (deps_cfg deps))
               then (case provider_WindowPostScheduler P (windowPostCallOf ctx deps) of
                       (c, s, r, err) \<Rightarrow>
                         [WdPostTask c, WdPostSubmitTask s, DeclareRecoverTask r])
               else [])
              @ (if EnableWinningPost (Subsystems (deps_cfg deps))
                 then [WinPostTask (lpwinning_NewWinPostTask P (winPostArgsOf deps))]
                 else [])
      \<and> [l. Call_harmonytask_New d l a \<leftarrow> snd (taskSelection P ctx deps)] = [ts])
   \<and> (\<forall>err. fst (taskSelection P ctx deps) = Inl err \<longrightarrow>
        [l. Call_harmonytask_New d l a \<leftarrow> snd (taskSelection P ctx deps)] = [])"
proof (intro conjI allI impI)
  fix ts
  assume h: "fst (taskSelection P ctx deps) = Inr ts"
  have ts: "ts = (if EnableWindowPost (Subsystems (deps_cfg deps))
               then (case provider_WindowPostScheduler P (windowPostCallOf ctx deps) of
                       (c, s, r, err) \<Rightarrow>
                         [WdPostTask c, WdPostSubmitTask s, DeclareRecoverTask r])
               else [])
              @ (if EnableWinningPost (Subsystems (deps_cfg deps))
                 then [WinPostTask (lpwinning_NewWinPostTask P (winPostArgsOf deps))]
                 else [])"
    using h by (auto simp add: TS_result split: if_splits prod.splits option.splits)
  show "ts = (if EnableWindowPost (Subsystems (deps_cfg deps))
               then (case provider_WindowPostScheduler P (windowPostCallOf ctx deps) of
                       (c, s, r, err) \<Rightarrow>
                         [WdPostTask c, WdPostSubmitTask s, DeclareRecoverTask r])
               else [])
              @ (if EnableWinningPost (Subsystems (deps_cfg deps))
                 then [WinPostTask (lpwinning_NewWinPostTask P (winPostArgsOf deps))]
                 else [])"
    by (rule ts)
  show "(\<exists>t \<in> set ts. isWindowPostTask t) \<longleftrightarrow> EnableWindowPost (Subsystems (deps_cfg deps))"
    using h
    by (simp add: TS_result split: if_splits prod.splits option.splits)
       (auto simp add: isWindowPostTask_def)
  show "(\<exists>t \<in> set ts. isWinningPostTask t) \<longleftrightarrow> EnableWinningPost (Subsystems (deps_cfg deps))"
    using h
    by (simp add: TS_result split: if_splits prod.splits option.splits)
       (auto simp add: isWinningPostTask_def)
  show "[l. Call_harmonytask_New d l a \<leftarrow> snd (taskSelection P ctx deps)] = [ts]"
    by (subst TS_trace) (simp add: h)
next
  fix err
  assume h: "fst (taskSelection P ctx deps) = Inl err"
  show "[l. Call_harmonytask_New d l a \<leftarrow> snd (taskSelection P ctx deps)] = []"
    by (subst TS_trace) (simp add: h)
qed

theorem registered_tasks_follow_config_witness:
  "fst (taskSelection (exampleCallees True) 0 (exampleDeps False True))
     = Inr [WinPostTask (Some ''WinPost'')]
   \<and> \<not> (\<exists>t \<in> set [WinPostTask (Some ''WinPost'') :: (string option, string option, string option, string option) TaskInterface].
          isWindowPostTask t)
   \<and> (\<exists>t \<in> set [WinPostTask (Some ''WinPost'') :: (string option, string option, string option, string option) TaskInterface].
          isWinningPostTask t)
   \<and> fst (taskSelection (exampleCallees False) 0 (exampleDeps True True))
     = Inl ''scheduler failed''
   \<and> [l. Call_harmonytask_New d l a
        \<leftarrow> snd (taskSelection (exampleCallees False) 0 (exampleDeps True True))] = []"
proof -
  have h1: "fst (taskSelection (exampleCallees True) 0 (exampleDeps False True))
     = Inr [WinPostTask (Some ''WinPost'')]"
    by (simp add: TS_result exampleCallees_def exampleDeps_def)
  have h2: "fst (taskSelection (exampleCallees False) 0 (exampleDeps True True))
     = Inl ''scheduler failed''"
    by (simp add: TS_result exampleCallees_def exampleDeps_def)
  have c: "EnableWindowPost (Subsystems (deps_cfg (exampleDeps False True))) = False"
     "EnableWinningPost (Subsystems (deps_cfg (exampleDeps False True))) = True"
    by (simp_all add: exampleDeps_def)
  from registered_tasks_follow_config [of "exampleCallees True" 0 "exampleDeps False True"] h1 c
  have a: "\<not> (\<exists>t \<in> set [WinPostTask (Some ''WinPost'') :: (string option, string option, string option, string option) TaskInterface].
          isWindowPostTask t)
   \<and> (\<exists>t \<in> set [WinPostTask (Some ''WinPost'') :: (string option, string option, string option, string option) TaskInterface].
          isWinningPostTask t)"
    by blast
  from registered_tasks_follow_config [of "exampleCallees False" 0 "exampleDeps True True"] h2
  have b: "[l. Call_harmonytask_New d l a
        \<leftarrow> snd (taskSelection (exampleCallees False) 0 (exampleDeps True True))] = []"
    by blast
  show ?thesis using h1 h2 a b by simp
qed

section \<open>Properties of the Proof Submit Task\<close>

text \<open>
  C4. The fee ceiling is a hard cap. \<open>WindowPostScheduler\<close> hands \<open>fc.MaxWindowPoStGasFee\<close>
  to the constructor of the Proof Submit Task (whenever it gets that far). With the task
  of the spec built from these arguments: if no candidate sender can afford the transaction
  within that ceiling, the run of the task fails terminally with the alert "unaffordable"
  and the outbox is as it was, so no transaction is submitted. A transaction that the task
  does submit is paid by a candidate who can afford it within the ceiling.
\<close>

theorem fee_ceiling_is_hard_cap:
  "[sa_maxFee a. Call_NewWdPostSubmitTask a
      \<leftarrow> snd (WindowPostScheduler L ctx fc pc api verif lw asel maddr db stor idx m)]
     = (if isl (NewWdPostTask L (computeArgsOf api verif lw maddr db stor idx m)) then []
        else [MaxWindowPoStGasFee fc])
   \<and> (NewWdPostSubmitTask L = spec_NewWdPostSubmitTask
       \<and> fst (WindowPostScheduler L ctx fc pc api verif lw asel maddr db stor idx m)
           = (Some ct, Some t, None)
       \<and> (\<forall>c \<in> set cands. \<not> canAfford (MaxWindowPoStGasFee fc) c) \<longrightarrow>
         task_maxFee t = MaxWindowPoStGasFee fc
         \<and> submitDo t cands payload w
             = (FailedTerminally Unaffordable, w\<lparr>alerts := alerts w @ [Unaffordable]\<rparr>)
         \<and> outbox (snd (submitDo t cands payload w)) = outbox w)
   \<and> (\<forall>w'. submitDo t' cands payload w = (Submitted, w') \<longrightarrow>
         (\<exists>c \<in> set cands. canAfford (task_maxFee t') c
            \<and> outbox w' = outbox w @ [\<lparr>msg_sender = cand_addr c, msg_payload = payload,
                                         msg_maxFee = task_maxFee t'\<rparr>]))"
proof (intro conjI impI allI)
  show "[sa_maxFee a. Call_NewWdPostSubmitTask a
      \<leftarrow> snd (WindowPostScheduler L ctx fc pc api verif lw asel maddr db stor idx m)]
     = (if isl (NewWdPostTask L (computeArgsOf api verif lw maddr db stor idx m)) then []
        else [MaxWindowPoStGasFee fc])"
    by (auto simp add: WPS_trace submitArgsOf_def split: sum.splits)
next
  assume h: "NewWdPostSubmitTask L = spec_NewWdPostSubmitTask
       \<and> fst (WindowPostScheduler L ctx fc pc api verif lw asel maddr db stor idx m)
           = (Some ct, Some t, None)
       \<and> (\<forall>c \<in> set cands. \<not> canAfford (MaxWindowPoStGasFee fc) c)"
  then have t: "t = \<lparr>task_maxFee = MaxWindowPoStGasFee fc,
                      task_args = submitArgsOf fc api asel db\<rparr>"
    by (auto simp add: WPS_result spec_NewWdPostSubmitTask_def submitArgsOf_def
        split: sum.splits)
  have none: "find (canAfford (MaxWindowPoStGasFee fc)) cands = None"
    using h by (simp add: find_None_iff)
  show "task_maxFee t = MaxWindowPoStGasFee fc"
    by (simp add: t)
  show "submitDo t cands payload w
             = (FailedTerminally Unaffordable, w\<lparr>alerts := alerts w @ [Unaffordable]\<rparr>)"
    by (simp add: submitDo_def selectSender_def t none)
  show "outbox (snd (submitDo t cands payload w)) = outbox w"
    by (simp add: submitDo_def selectSender_def t none)
next
  fix w'
  assume s: "submitDo t' cands payload w = (Submitted, w')"
  then obtain c where f: "find (canAfford (task_maxFee t')) cands = Some c"
    by (auto simp add: submitDo_def selectSender_def split: option.splits)
  then have "c \<in> set cands" and "canAfford (task_maxFee t') c"
    by (auto simp add: find_Some_iff)
  moreover have "outbox w' = outbox w @ [\<lparr>msg_sender = cand_addr c, msg_payload = payload,
                                         msg_maxFee = task_maxFee t'\<rparr>]"
    using s f by (auto simp add: submitDo_def selectSender_def)
  ultimately show "\<exists>c \<in> set cands. canAfford (task_maxFee t') c
            \<and> outbox w' = outbox w @ [\<lparr>msg_sender = cand_addr c, msg_payload = payload,
                                         msg_maxFee = task_maxFee t'\<rparr>]"
    by blast
qed

theorem fee_ceiling_is_hard_cap_witness:
  "NewWdPostSubmitTask exampleSpecLpwindow = spec_NewWdPostSubmitTask
   \<and> fst (WindowPostScheduler exampleSpecLpwindow 0 exampleFees () 2 3 4 5 [''f01234''] 1 6 7 4)
       = (Some ''compute'',
          Some \<lparr>task_maxFee = 100, task_args = submitArgsOf exampleFees 2 5 1\<rparr>, None)
   \<and> \<not> canAfford 100 (hd exampleCandidates)
   \<and> submitDo \<lparr>task_maxFee = 100, task_args = submitArgsOf exampleFees 2 5 1\<rparr>
        exampleCandidates ''proof'' exampleWorld
       = (FailedTerminally Unaffordable, \<lparr>outbox = [], alerts = [Unaffordable]\<rparr>)
   \<and> fst (submitDo \<lparr>task_maxFee = 200, task_args = submitArgsOf exampleFees 2 5 1\<rparr>
        exampleCandidates ''proof'' exampleWorld) = Submitted"
proof -
  have h1: "NewWdPostSubmitTask exampleSpecLpwindow = spec_NewWdPostSubmitTask"
    by (simp add: exampleSpecLpwindow_def)
  have h2: "fst (WindowPostScheduler exampleSpecLpwindow 0 exampleFees () 2 3 4 5
                  [''f01234''] 1 6 7 4)
       = (Some ''compute'',
          Some \<lparr>task_maxFee = 100, task_args = submitArgsOf exampleFees 2 5 1\<rparr>, None)"
    by (simp add: WPS_result exampleSpecLpwindow_def spec_NewWdPostSubmitTask_def
        submitArgsOf_def exampleFees_def)
  have h3: "\<forall>c \<in> set exampleCandidates. \<not> canAfford (MaxWindowPoStGasFee exampleFees) c"
    by (simp add: exampleCandidates_def exampleFees_def canAfford_def)
  have h4: "\<not> canAfford 100 (hd exampleCandidates)"
    by (simp add: exampleCandidates_def canAfford_def)
  have h5: "fst (submitDo \<lparr>task_maxFee = 200, task_args = submitArgsOf exampleFees 2 5 1\<rparr>
        exampleCandidates ''proof'' exampleWorld) = Submitted"
    by (simp add: submitDo_def selectSender_def exampleCandidates_def canAfford_def)
  from fee_ceiling_is_hard_cap
         [of exampleSpecLpwindow 0 exampleFees "()" 2 3 4 5 "[''f01234'']" 1 6 7 4
             "''compute''" "\<lparr>task_maxFee = 100, task_args = submitArgsOf exampleFees 2 5 1\<rparr>"
             exampleCandidates "''proof''" exampleWorld]
       h1 h2 h3
  have a: "submitDo \<lparr>task_maxFee = 100, task_args = submitArgsOf exampleFees 2 5 1\<rparr>
        exampleCandidates ''proof'' exampleWorld
       = (FailedTerminally Unaffordable, exampleWorld\<lparr>alerts := alerts exampleWorld @ [Unaffordable]\<rparr>)"
    by blast
  show ?thesis using h1 h2 h4 h5 a by (simp add: exampleWorld_def)
qed

section \<open>Properties of the Chain Scheduler\<close>

lemma fire_projection:
  "map (\<lambda>i. (fst i, epochOf i)) (fire cbs ch es)
     = concat (map (\<lambda>e. map (\<lambda>k. (k, e)) cbs) es)"
  by (induction es) (simp_all add: fire_def epochOf_def comp_def)

lemma fire_epochs:
  "map epochOf (fire cbs ch es) = concat (map (\<lambda>e. replicate (length cbs) e) es)"
  by (induction es) (simp_all add: fire_def epochOf_def comp_def map_replicate_const)

lemma sorted_concat_replicate:
  "sorted es \<Longrightarrow> sorted (concat (map (\<lambda>e. replicate n e) es))"
  for es :: "int list"
  by (induction es) (auto simp add: sorted_append)

lemma fire_member:
  "i \<in> set (fire cbs ch es) \<Longrightarrow>
     fst i \<in> set cbs \<and> epochOf i \<in> set es \<and> fst (snd i) = head_at ch (epochOf i)"
  by (auto simp add: fire_def epochOf_def)

lemma fire_append: "fire cbs ch (es @ es') = fire cbs ch es @ fire cbs ch es'"
  by (simp add: fire_def)

lemma grid_distinct:
  "distinct cbs \<Longrightarrow> distinct es \<Longrightarrow>
     distinct (concat (map (\<lambda>e. map (\<lambda>k. (k, e)) cbs) es))"
  by (induction es) (auto simp add: distinct_map inj_on_def)

lemma commonPrefix_extends:
  "extends old new \<Longrightarrow> commonPrefix old new = length old"
proof (induction old arbitrary: new)
  case Nil
  then show ?case by simp
next
  case (Cons x xs)
  then show ?case
    by (cases new) (simp_all add: extends_def)
qed

lemma commonPrefix_le: "commonPrefix old new \<le> length new"
  by (induction old new rule: commonPrefix.induct) simp_all

lemma commonAncestor_bounds:
  "- 1 \<le> commonAncestor old new \<and> commonAncestor old new \<le> height new"
  using commonPrefix_le [of old new] by (simp add: commonAncestor_def height_def)

lemma extends_length: "extends old new \<Longrightarrow> length old \<le> length new"
proof -
  assume "extends old new"
  then have "length (take (length old) new) = length old"
    by (simp add: extends_def)
  then show ?thesis by simp
qed

lemma extends_height: "extends old new \<Longrightarrow> height old \<le> height new"
  using extends_length [of old new] by (simp add: height_def)

lemma extends_refl: "extends c c"
  by (simp add: extends_def)

lemma extends_trans:
  assumes "extends a b" and "extends b c"
  shows "extends a c"
proof -
  have le: "length a \<le> length b"
    using assms(1) by (rule extends_length)
  have "take (length a) c = take (length a) (take (length b) c)"
    using le by (simp add: min_def)
  also have "\<dots> = take (length a) b"
    using assms(2) by (simp add: extends_def)
  also have "\<dots> = a"
    using assms(1) by (simp add: extends_def)
  finally show ?thesis by (simp add: extends_def)
qed

lemma extending_last: "extending c chs \<Longrightarrow> extends c (last (c # chs))"
proof (induction chs arbitrary: c)
  case Nil
  then show ?case by (simp add: extends_refl)
next
  case (Cons d chs)
  then have "extends c d" and "extends d (last (d # chs))"
    by simp_all
  then have "extends c (last (d # chs))"
    by (rule extends_trans)
  then show ?case by simp
qed

lemma head_at_extends:
  assumes "extends old new" and "e \<le> height old"
  shows "head_at old e = head_at new e"
proof (cases "0 \<le> e")
  case False
  then show ?thesis by (simp add: head_at_def)
next
  case True
  have lt: "nat e < length old"
    using True assms(2) by (simp add: height_def)
  have "old ! nat e = take (length old) new ! nat e"
    using assms(1) by (simp add: extends_def)
  also have "\<dots> = new ! nat e"
    using lt by simp
  finally have "old ! nat e = new ! nat e" .
  moreover have "e \<le> height new"
    using assms(2) extends_height [OF assms(1)] by simp
  ultimately show ?thesis
    using True assms(2) by (simp add: head_at_def)
qed

lemma fire_extends:
  "extends old new \<Longrightarrow> \<forall>e \<in> set es. e \<le> height old \<Longrightarrow> fire cbs old es = fire cbs new es"
  by (induction es) (simp_all add: fire_def head_at_extends)

lemma upto_glue:
  "a \<le> b \<Longrightarrow> b \<le> c \<Longrightarrow> [a + 1 .. b] @ [b + 1 .. c] = [a + 1 .. c]" for a b c :: int
proof (cases "a = b")
  case True
  then show ?thesis by simp
next
  case False
  assume "a \<le> b" and "b \<le> c"
  with False have "a + 1 \<le> b" by simp
  then show ?thesis
    using \<open>b \<le> c\<close> by (rule upto_split2 [symmetric])
qed

lemma upto_max: "a \<le> m \<Longrightarrow> [m + 1 .. b] = [m + 1 .. max a b]" for a b m :: int
  by (cases "a \<le> b") (simp_all add: max_def)

lemma onHead_log:
  "snd (onHead lag cbs cur ch)
     = fire cbs ch [min (lastFired cur) (commonAncestor (lineage cur) ch) + 1
                    .. height ch - int lag]"
  by (simp add: onHead_def Let_def newlyFinalized_def)

lemma onHead_cursor:
  "fst (onHead lag cbs cur ch)
     = \<lparr>lastFired = max (min (lastFired cur) (commonAncestor (lineage cur) ch))
                        (height ch - int lag),
        lineage = ch\<rparr>"
  by (simp add: onHead_def Let_def)

lemma unfired_extends:
  assumes "extends (lineage cur) ch" and "lastFired cur \<le> height (lineage cur)"
  shows "min (lastFired cur) (commonAncestor (lineage cur) ch) = lastFired cur"
proof -
  have "commonAncestor (lineage cur) ch = height (lineage cur)"
    using assms(1) by (simp add: commonAncestor_def commonPrefix_extends height_def)
  then show ?thesis
    using assms(2) by simp
qed

text \<open>
  A notification followed by heads that each extend the one before: the cursor moves to the
  last finalized epoch of the last head, and the invocations are those of the epochs above
  the unfired mark, with heads of the last lineage.
\<close>

lemma runHeads_segment:
  "extending ch chs \<Longrightarrow>
     runHeads lag cbs cur (ch # chs)
       = (\<lparr>lastFired = max (min (lastFired cur) (commonAncestor (lineage cur) ch))
                          (height (last (ch # chs)) - int lag),
          lineage = last (ch # chs)\<rparr>,
          fire cbs (last (ch # chs))
            [min (lastFired cur) (commonAncestor (lineage cur) ch) + 1
             .. height (last (ch # chs)) - int lag])"
proof (induction chs arbitrary: cur ch)
  case Nil
  show ?case
    using onHead_log [of lag cbs cur ch] onHead_cursor [of lag cbs cur ch]
    by (cases "onHead lag cbs cur ch") simp
next
  case (Cons d chs)
  define u where "u = min (lastFired cur) (commonAncestor (lineage cur) ch)"
  define l where "l = last (d # chs)"
  define cur' where "cur' = \<lparr>lastFired = max u (height ch - int lag), lineage = ch\<rparr>"
  have ext: "extends ch d" and rest: "extending d chs"
    using Cons.prems by simp_all
  have step: "onHead lag cbs cur ch = (cur', fire cbs ch [u + 1 .. height ch - int lag])"
    using onHead_log [of lag cbs cur ch] onHead_cursor [of lag cbs cur ch]
    by (cases "onHead lag cbs cur ch") (simp add: u_def cur'_def)
  have ub: "u \<le> height ch"
    using commonAncestor_bounds [of "lineage cur" ch] by (auto simp add: u_def)
  have inv: "lastFired cur' \<le> height (lineage cur')"
    using ub by (simp add: cur'_def)
  have "extends (lineage cur') d"
    using ext by (simp add: cur'_def)
  then have u': "min (lastFired cur') (commonAncestor (lineage cur') d) = lastFired cur'"
    using inv by (rule unfired_extends)
  have ih: "runHeads lag cbs cur' (d # chs)
      = (\<lparr>lastFired = max (max u (height ch - int lag)) (height l - int lag), lineage = l\<rparr>,
         fire cbs l [max u (height ch - int lag) + 1 .. height l - int lag])"
    using Cons.IH [OF rest, of cur'] by (simp only: u' l_def) (simp add: cur'_def)
  have chl: "extends ch l"
    unfolding l_def using ext extending_last [OF rest] by (rule extends_trans)
  have hl: "height ch \<le> height l"
    using chl by (rule extends_height)
  have first: "fire cbs ch [u + 1 .. height ch - int lag]
      = fire cbs l [u + 1 .. max u (height ch - int lag)]"
  proof -
    have "[u + 1 .. height ch - int lag] = [u + 1 .. max u (height ch - int lag)]"
      by (rule upto_max) simp
    moreover have "fire cbs ch [u + 1 .. height ch - int lag]
        = fire cbs l [u + 1 .. height ch - int lag]"
      using chl by (rule fire_extends) simp
    ultimately show ?thesis by simp
  qed
  have glue: "[u + 1 .. max u (height ch - int lag)]
        @ [max u (height ch - int lag) + 1 .. max u (height l - int lag)]
      = [u + 1 .. max u (height l - int lag)]"
    using hl by (intro upto_glue) simp_all
  have tail: "[max u (height ch - int lag) + 1 .. height l - int lag]
      = [max u (height ch - int lag) + 1 .. max u (height l - int lag)]"
    by (rule upto_max) simp
  have whole: "[u + 1 .. max u (height l - int lag)] = [u + 1 .. height l - int lag]"
    by (rule upto_max [symmetric]) simp
  have cursor: "max (max u (height ch - int lag)) (height l - int lag)
      = max u (height l - int lag)"
    using hl by simp
  have fired: "fire cbs ch [u + 1 .. height ch - int lag]
        @ fire cbs l [max u (height ch - int lag) + 1 .. height l - int lag]
      = fire cbs l [u + 1 .. height l - int lag]"
    unfolding first tail fire_append [symmetric] glue whole ..
  have "runHeads lag cbs cur (ch # d # chs)
      = (case runHeads lag cbs cur' (d # chs) of
           (cur'', fired') \<Rightarrow> (cur'', fire cbs ch [u + 1 .. height ch - int lag] @ fired'))"
    by (subst runHeads.simps(2)) (simp only: step prod.case)
  also have "\<dots> = (\<lparr>lastFired = max u (height l - int lag), lineage = l\<rparr>,
         fire cbs l [u + 1 .. height l - int lag])"
    by (simp only: ih prod.case cursor fired)
  finally have "runHeads lag cbs cur (ch # d # chs)
      = (\<lparr>lastFired = max u (height l - int lag), lineage = l\<rparr>,
         fire cbs l [u + 1 .. height l - int lag])" .
  moreover have "last (ch # d # chs) = l"
    by (simp add: l_def)
  ultimately show ?case
    by (simp only: u_def)
qed

lemma runHeads_append:
  "runHeads lag cbs cur (chs1 @ chs2)
     = (case runHeads lag cbs cur chs1 of
          (cur1, fired1) \<Rightarrow>
            (case runHeads lag cbs cur1 chs2 of
               (cur2, fired2) \<Rightarrow> (cur2, fired1 @ fired2)))"
  by (induction chs1 arbitrary: cur) (auto split: prod.splits)

text \<open>
  C5. Take a notification followed by any number of heads that each extend the one before.
  The loop then ends with the cursor at the last finalized epoch of the last head (or at
  the unfired mark, if that is later) and with the last head's lineage recorded, and its
  invocations are exactly: for every newly finalized epoch, from one above the unfired mark
  to the last head's height minus the lag, in ascending order, every registered callback
  once, in registration order, with the head as of that epoch. So the epochs of the
  invocations ascend and no callback is invoked twice for an epoch. The unfired mark is the
  smaller of the cursor and the common ancestor \<open>A\<close> of the recorded and the notified
  lineage: it is the cursor itself when the notified lineage extends the recorded one, and
  after a reorg an epoch that had fired before fires again only if it is strictly above
  \<open>A\<close>. An arbitrary sequence of notifications, with any number of reorgs, is handled
  piece by piece: the loop over two sequences one after the other is the loop over the
  first, followed by the loop over the second from the cursor the first has left; without
  a notification nothing fires; a single notification is one step.
\<close>

theorem chain_scheduler_fires_once_in_order:
  "(extending ch chs \<longrightarrow>
      runHeads lag cbs cur (ch # chs)
        = (\<lparr>lastFired = max (min (lastFired cur) (commonAncestor (lineage cur) ch))
                           (height (last (ch # chs)) - int lag),
            lineage = last (ch # chs)\<rparr>,
           fire cbs (last (ch # chs))
             [min (lastFired cur) (commonAncestor (lineage cur) ch) + 1
              .. height (last (ch # chs)) - int lag])
      \<and> map (\<lambda>i. (fst i, epochOf i)) (snd (runHeads lag cbs cur (ch # chs)))
          = concat (map (\<lambda>e. map (\<lambda>k. (k, e)) cbs)
              [min (lastFired cur) (commonAncestor (lineage cur) ch) + 1
               .. height (last (ch # chs)) - int lag])
      \<and> sorted (map epochOf (snd (runHeads lag cbs cur (ch # chs))))
      \<and> (distinct cbs \<longrightarrow>
            distinct (map (\<lambda>i. (fst i, epochOf i)) (snd (runHeads lag cbs cur (ch # chs)))))
      \<and> (\<forall>i \<in> set (snd (runHeads lag cbs cur (ch # chs))).
            fst (snd i) = head_at (last (ch # chs)) (epochOf i)
            \<and> (- 1 \<le> lastFired cur \<longrightarrow>
                  fst (snd i) = Some (last (ch # chs) ! nat (epochOf i)))
            \<and> (epochOf i \<le> lastFired cur \<longrightarrow>
                  commonAncestor (lineage cur) ch < epochOf i)))
   \<and> (extends (lineage cur) ch \<and> lastFired cur \<le> height (lineage cur) \<longrightarrow>
        min (lastFired cur) (commonAncestor (lineage cur) ch) = lastFired cur)
   \<and> runHeads lag cbs cur (chs1 @ chs2)
        = (case runHeads lag cbs cur chs1 of
             (cur1, fired1) \<Rightarrow>
               (case runHeads lag cbs cur1 chs2 of
                  (cur2, fired2) \<Rightarrow> (cur2, fired1 @ fired2)))
   \<and> runHeads lag cbs cur [] = (cur, [])
   \<and> runHeads lag cbs cur [ch] = onHead lag cbs cur ch
   \<and> map (\<lambda>i. (fst i, epochOf i)) (snd (onHead lag cbs cur ch))
        = concat (map (\<lambda>e. map (\<lambda>k. (k, e)) cbs)
            [min (lastFired cur) (commonAncestor (lineage cur) ch) + 1
             .. height ch - int lag])
   \<and> sorted (map epochOf (snd (onHead lag cbs cur ch)))
   \<and> (\<forall>i \<in> set (snd (onHead lag cbs cur ch)).
        fst (snd i) = head_at ch (epochOf i)
        \<and> (- 1 \<le> lastFired cur \<longrightarrow> fst (snd i) = Some (ch ! nat (epochOf i)))
        \<and> (epochOf i \<le> lastFired cur \<longrightarrow> commonAncestor (lineage cur) ch < epochOf i))
   \<and> lastFired (fst (onHead lag cbs cur ch))
        = max (min (lastFired cur) (commonAncestor (lineage cur) ch)) (height ch - int lag)
   \<and> lineage (fst (onHead lag cbs cur ch)) = ch"
proof -
  define u where "u = min (lastFired cur) (commonAncestor (lineage cur) ch)"
  have member: "fst (snd i) = head_at c (epochOf i)
        \<and> (- 1 \<le> lastFired cur \<longrightarrow> fst (snd i) = Some (c ! nat (epochOf i)))
        \<and> (epochOf i \<le> lastFired cur \<longrightarrow> commonAncestor (lineage cur) ch < epochOf i)"
    if "i \<in> set (fire cbs c [u + 1 .. height c - int lag])" for i c
  proof -
    from that have m: "epochOf i \<in> set [u + 1 .. height c - int lag]"
      and hd: "fst (snd i) = head_at c (epochOf i)"
      using fire_member [of i cbs c "[u + 1 .. height c - int lag]"] by blast+
    have lo: "- 1 \<le> lastFired cur \<Longrightarrow> 0 \<le> epochOf i"
      using m commonAncestor_bounds [of "lineage cur" ch] by (auto simp add: u_def)
    have hi: "epochOf i \<le> height c"
      using m by auto
    have re: "epochOf i \<le> lastFired cur \<Longrightarrow> commonAncestor (lineage cur) ch < epochOf i"
      using m by (auto simp add: u_def)
    show ?thesis
      using hd lo hi re by (simp add: head_at_def)
  qed
  have seq: "runHeads lag cbs cur (ch # chs)
        = (\<lparr>lastFired = max u (height (last (ch # chs)) - int lag), lineage = last (ch # chs)\<rparr>,
           fire cbs (last (ch # chs)) [u + 1 .. height (last (ch # chs)) - int lag])"
    if "extending ch chs"
    using that unfolding u_def by (rule runHeads_segment)
  have one: "runHeads lag cbs cur [ch] = onHead lag cbs cur ch"
    by (cases "onHead lag cbs cur ch") simp
  have log: "snd (onHead lag cbs cur ch) = fire cbs ch [u + 1 .. height ch - int lag]"
    by (simp only: onHead_log u_def)
  have part1: "runHeads lag cbs cur (ch # chs)
        = (\<lparr>lastFired = max u (height (last (ch # chs)) - int lag), lineage = last (ch # chs)\<rparr>,
           fire cbs (last (ch # chs)) [u + 1 .. height (last (ch # chs)) - int lag])
      \<and> map (\<lambda>i. (fst i, epochOf i)) (snd (runHeads lag cbs cur (ch # chs)))
          = concat (map (\<lambda>e. map (\<lambda>k. (k, e)) cbs)
              [u + 1 .. height (last (ch # chs)) - int lag])
      \<and> sorted (map epochOf (snd (runHeads lag cbs cur (ch # chs))))
      \<and> (distinct cbs \<longrightarrow>
            distinct (map (\<lambda>i. (fst i, epochOf i)) (snd (runHeads lag cbs cur (ch # chs)))))
      \<and> (\<forall>i \<in> set (snd (runHeads lag cbs cur (ch # chs))).
            fst (snd i) = head_at (last (ch # chs)) (epochOf i)
            \<and> (- 1 \<le> lastFired cur \<longrightarrow>
                  fst (snd i) = Some (last (ch # chs) ! nat (epochOf i)))
            \<and> (epochOf i \<le> lastFired cur \<longrightarrow>
                  commonAncestor (lineage cur) ch < epochOf i))"
    if e: "extending ch chs"
  proof -
    define l where "l = last (ch # chs)"
    have s: "runHeads lag cbs cur (ch # chs)
        = (\<lparr>lastFired = max u (height l - int lag), lineage = l\<rparr>,
           fire cbs l [u + 1 .. height l - int lag])"
      using seq [OF e] by (simp only: l_def)
    have sn: "snd (runHeads lag cbs cur (ch # chs)) = fire cbs l [u + 1 .. height l - int lag]"
      by (simp only: s snd_conv)
    have "map (\<lambda>i. (fst i, epochOf i)) (snd (runHeads lag cbs cur (ch # chs)))
          = concat (map (\<lambda>e. map (\<lambda>k. (k, e)) cbs) [u + 1 .. height l - int lag])"
      by (simp only: sn fire_projection)
    moreover have "sorted (map epochOf (snd (runHeads lag cbs cur (ch # chs))))"
      by (simp only: sn fire_epochs sorted_concat_replicate sorted_upto)
    moreover have "distinct cbs \<longrightarrow>
            distinct (map (\<lambda>i. (fst i, epochOf i)) (snd (runHeads lag cbs cur (ch # chs))))"
      by (simp only: sn fire_projection) (simp add: grid_distinct)
    moreover have "\<forall>i \<in> set (snd (runHeads lag cbs cur (ch # chs))).
            fst (snd i) = head_at l (epochOf i)
            \<and> (- 1 \<le> lastFired cur \<longrightarrow> fst (snd i) = Some (l ! nat (epochOf i)))
            \<and> (epochOf i \<le> lastFired cur \<longrightarrow>
                  commonAncestor (lineage cur) ch < epochOf i)"
      unfolding sn using member [of _ l] by blast
    ultimately show ?thesis
      using s unfolding l_def by blast
  qed
  have part2: "extends (lineage cur) ch \<and> lastFired cur \<le> height (lineage cur) \<longrightarrow>
        u = lastFired cur"
    unfolding u_def using unfired_extends [of cur ch] by blast
  have part3: "map (\<lambda>i. (fst i, epochOf i)) (snd (onHead lag cbs cur ch))
        = concat (map (\<lambda>e. map (\<lambda>k. (k, e)) cbs) [u + 1 .. height ch - int lag])
   \<and> sorted (map epochOf (snd (onHead lag cbs cur ch)))
   \<and> (\<forall>i \<in> set (snd (onHead lag cbs cur ch)).
        fst (snd i) = head_at ch (epochOf i)
        \<and> (- 1 \<le> lastFired cur \<longrightarrow> fst (snd i) = Some (ch ! nat (epochOf i)))
        \<and> (epochOf i \<le> lastFired cur \<longrightarrow> commonAncestor (lineage cur) ch < epochOf i))
   \<and> lastFired (fst (onHead lag cbs cur ch)) = max u (height ch - int lag)
   \<and> lineage (fst (onHead lag cbs cur ch)) = ch"
  proof (intro conjI)
    show "map (\<lambda>i. (fst i, epochOf i)) (snd (onHead lag cbs cur ch))
        = concat (map (\<lambda>e. map (\<lambda>k. (k, e)) cbs) [u + 1 .. height ch - int lag])"
      by (simp only: log fire_projection)
    show "sorted (map epochOf (snd (onHead lag cbs cur ch)))"
      by (simp only: log fire_epochs sorted_concat_replicate sorted_upto)
    show "\<forall>i \<in> set (snd (onHead lag cbs cur ch)).
        fst (snd i) = head_at ch (epochOf i)
        \<and> (- 1 \<le> lastFired cur \<longrightarrow> fst (snd i) = Some (ch ! nat (epochOf i)))
        \<and> (epochOf i \<le> lastFired cur \<longrightarrow> commonAncestor (lineage cur) ch < epochOf i)"
      unfolding log using member [of _ ch] by blast
    show "lastFired (fst (onHead lag cbs cur ch)) = max u (height ch - int lag)"
      by (simp add: onHead_cursor u_def)
    show "lineage (fst (onHead lag cbs cur ch)) = ch"
      by (simp add: onHead_cursor)
  qed
  have part4: "runHeads lag cbs cur [] = (cur, [])"
    by simp
  show ?thesis
    using part1 part2 part3 part4 one runHeads_append [of lag cbs cur chs1 chs2]
    unfolding u_def by blast
qed

theorem chain_scheduler_fires_once_in_order_witness:
  "extends (lineage exampleCursor) exampleChain11
   \<and> lastFired exampleCursor \<le> height (lineage exampleCursor)
   \<and> extending exampleChain11 [exampleChainA]
   \<and> runHeads 0 [''cb''] exampleCursor [exampleChain11, exampleChainA]
       = (\<lparr>lastFired = 12, lineage = exampleChainA\<rparr>,
          [(''cb'', Some 110, 10), (''cb'', Some 111, 11), (''cb'', Some 112, 12)])
   \<and> commonAncestor exampleChainA exampleChainB = 10
   \<and> extending exampleChainB [exampleChainB13]
   \<and> runHeads 0 [''cb''] \<lparr>lastFired = 12, lineage = exampleChainA\<rparr>
         [exampleChainB, exampleChainB13]
       = (\<lparr>lastFired = 13, lineage = exampleChainB13\<rparr>,
          [(''cb'', Some 211, 11), (''cb'', Some 212, 12), (''cb'', Some 213, 13)])
   \<and> runHeads 0 [''cb''] exampleCursor
         [exampleChain11, exampleChainA, exampleChainB, exampleChainB13]
       = (\<lparr>lastFired = 13, lineage = exampleChainB13\<rparr>,
          [(''cb'', Some 110, 10), (''cb'', Some 111, 11), (''cb'', Some 112, 12),
           (''cb'', Some 211, 11), (''cb'', Some 212, 12), (''cb'', Some 213, 13)])"
proof -
  have e0: "extends (lineage exampleCursor) exampleChain11
      \<and> lastFired exampleCursor \<le> height (lineage exampleCursor)"
    by (simp add: exampleCursor_def exampleChain11_def extends_def height_def)
  have e1: "extending exampleChain11 [exampleChainA]"
    by (simp add: exampleChain11_def exampleChainA_def extends_def)
  have e2: "extending exampleChainB [exampleChainB13]"
    by (simp add: exampleChainB_def exampleChainB13_def extends_def)
  have lf: "lastFired exampleCursor = 9"
    by (simp add: exampleCursor_def)
  have hA: "height exampleChainA = 12" and hB: "height exampleChainB13 = 13"
    by (simp_all add: exampleChainA_def exampleChainB13_def height_def)
  have ca: "commonAncestor exampleChainA exampleChainB = 10"
    by (simp add: exampleChainA_def exampleChainB_def commonAncestor_def)
  have fireA: "fire [''cb''] exampleChainA [10, 11, 12]
      = [(''cb'', Some 110, 10), (''cb'', Some 111, 11), (''cb'', Some 112, 12)]"
    by (simp add: fire_def head_at_def hA) (simp add: exampleChainA_def)
  have fireB: "fire [''cb''] exampleChainB13 [11, 12, 13]
      = [(''cb'', Some 211, 11), (''cb'', Some 212, 12), (''cb'', Some 213, 13)]"
    by (simp add: fire_def head_at_def hB) (simp add: exampleChainB13_def)
  note t1 = chain_scheduler_fires_once_in_order
              [of exampleChain11 "[exampleChainA]" 0 "[''cb'']" exampleCursor
                  "[exampleChain11, exampleChainA]" "[exampleChainB, exampleChainB13]"]
  note t2 = chain_scheduler_fires_once_in_order
              [of exampleChainB "[exampleChainB13]" 0 "[''cb'']"
                  "\<lparr>lastFired = 12, lineage = exampleChainA\<rparr>" "[]" "[]"]
  from t1 e0 have u1: "min (lastFired exampleCursor)
        (commonAncestor (lineage exampleCursor) exampleChain11) = lastFired exampleCursor"
    by blast
  from t1 e1 have r1: "runHeads 0 [''cb''] exampleCursor (exampleChain11 # [exampleChainA])
      = (\<lparr>lastFired = max (min (lastFired exampleCursor)
                                (commonAncestor (lineage exampleCursor) exampleChain11))
                          (height (last (exampleChain11 # [exampleChainA])) - int 0),
          lineage = last (exampleChain11 # [exampleChainA])\<rparr>,
         fire [''cb''] (last (exampleChain11 # [exampleChainA]))
           [min (lastFired exampleCursor)
              (commonAncestor (lineage exampleCursor) exampleChain11) + 1
            .. height (last (exampleChain11 # [exampleChainA])) - int 0])"
    by blast
  have run1: "runHeads 0 [''cb''] exampleCursor [exampleChain11, exampleChainA]
       = (\<lparr>lastFired = 12, lineage = exampleChainA\<rparr>,
          [(''cb'', Some 110, 10), (''cb'', Some 111, 11), (''cb'', Some 112, 12)])"
    unfolding r1 u1 by (simp add: lf hA fireA)
  from t2 e2 have r2: "runHeads 0 [''cb''] \<lparr>lastFired = 12, lineage = exampleChainA\<rparr>
        (exampleChainB # [exampleChainB13])
      = (\<lparr>lastFired = max (min (lastFired \<lparr>lastFired = 12, lineage = exampleChainA\<rparr>)
                                (commonAncestor
                                   (lineage \<lparr>lastFired = 12, lineage = exampleChainA\<rparr>)
                                   exampleChainB))
                          (height (last (exampleChainB # [exampleChainB13])) - int 0),
          lineage = last (exampleChainB # [exampleChainB13])\<rparr>,
         fire [''cb''] (last (exampleChainB # [exampleChainB13]))
           [min (lastFired \<lparr>lastFired = 12, lineage = exampleChainA\<rparr>)
              (commonAncestor (lineage \<lparr>lastFired = 12, lineage = exampleChainA\<rparr>)
                 exampleChainB) + 1
            .. height (last (exampleChainB # [exampleChainB13])) - int 0])"
    by blast
  have run2: "runHeads 0 [''cb''] \<lparr>lastFired = 12, lineage = exampleChainA\<rparr>
         [exampleChainB, exampleChainB13]
       = (\<lparr>lastFired = 13, lineage = exampleChainB13\<rparr>,
          [(''cb'', Some 211, 11), (''cb'', Some 212, 12), (''cb'', Some 213, 13)])"
    unfolding r2 by (simp add: ca hB fireB)
  from t1 have app: "runHeads 0 [''cb''] exampleCursor
        ([exampleChain11, exampleChainA] @ [exampleChainB, exampleChainB13])
      = (case runHeads 0 [''cb''] exampleCursor [exampleChain11, exampleChainA] of
           (cur1, fired1) \<Rightarrow>
             (case runHeads 0 [''cb''] cur1 [exampleChainB, exampleChainB13] of
                (cur2, fired2) \<Rightarrow> (cur2, fired1 @ fired2)))"
    by blast
  have all: "runHeads 0 [''cb''] exampleCursor
         [exampleChain11, exampleChainA, exampleChainB, exampleChainB13]
       = (\<lparr>lastFired = 13, lineage = exampleChainB13\<rparr>,
          [(''cb'', Some 110, 10), (''cb'', Some 111, 11), (''cb'', Some 112, 12),
           (''cb'', Some 211, 11), (''cb'', Some 212, 12), (''cb'', Some 213, 13)])"
    using app by (simp only: run1 run2 prod.case append.simps)
  show ?thesis
    using e0 e1 e2 run1 ca run2 all by blast
qed

end
